theory Spec2Isabelle
  imports Main
begin

section \<open>Data model\<close>

text \<open>
  A Go \<^verbatim>\<open>error\<close> is represented by its message; \<^verbatim>\<open>nil\<close> is \<open>None\<close> of
  \<open>error option\<close>, and a pair \<^verbatim>\<open>(value, error)\<close> is a sum with \<open>Inl\<close> the error.
\<close>

type_synonym error = string

text \<open>
  The fields of \<^verbatim>\<open>apis.CSIVolume\<close> that the two source files read or write
  (\<^verbatim>\<open>Spec.Volume.*\<close> and \<^verbatim>\<open>Spec.ISCSI.*\<close>).
\<close>

record CSIVolume =
  Name :: string
  FSType :: string
  Capacity :: string
  AccessModes :: "string list"
  MountPath :: string
  ReadOnly :: bool
  MountOptions :: "string list"
  DevicePath :: string
  Iqn :: string
  Lun :: string
  IscsiInterface :: string
  TargetPortal :: string

text \<open>What \<^verbatim>\<open>GetVolumeDetails\<close> reads of the persistent volume returned by \<^verbatim>\<open>FetchPVDetails\<close>.\<close>

record PersistentVolume =
  pvCapacity :: string
  pvAccessModes :: "string list"
  pvFSType :: string
  pvVolumeAttributes :: "string \<rightharpoonup> string"

text \<open>\<^verbatim>\<open>mount.MountPoint\<close>, an entry of the kernel mount table.\<close>

record MountPoint =
  Device :: string
  Path :: string
  Opts :: "string list"

text \<open>
  Every call that leaves the handler (external collaborators, sleeps, spawned goroutines) and
  every write to the shared registry is logged, in program order, as an event. A volume
  object that is shared is named by its address in the store (see \<open>heap\<close> below).
\<close>

datatype event =
    E_Sleep nat
  | E_FetchPVDetails string
  | E_getVolStatus string
  | E_Dial string
  | E_DeleteOldCSIVolumeCR CSIVolume string
  | E_CreateCSIVolumeCR CSIVolume string string
  | E_ChmodMountPath string
  | E_AttachAndMountDisk nat
  | E_UnmountAndDetachDisk nat string
  | E_DeleteCSIVolumeCR nat
  | E_VolumesPut string nat
  | E_VolumesDelete string
  | E_SetDevicePath nat string
  | E_ListContains string
  | E_ReqMountPut string
  | E_ReqMountDelete string
  | E_GoRemountVolume bool nat "MountPoint option" string
  | E_Unmount string
  | E_Mount string string "string list"

section \<open>Constants\<close>

definition VolumeWaitTimeout :: nat where
  "VolumeWaitTimeout = 2"

definition VolumeWaitRetryCount :: nat where
  "VolumeWaitRetryCount = 6"

definition MonitorMountRetryTimeout :: nat where
  "MonitorMountRetryTimeout = 5"

section \<open>Readiness prober\<close>

text \<open>
  \<^verbatim>\<open>WaitForVolumeToBeReady\<close>. The health oracle \<^verbatim>\<open>getVolStatus\<close> is external; its
  answer to the query made when the counter \<^verbatim>\<open>retries\<close> has the value \<open>n\<close> is
  \<open>getVolStatus n volumeID\<close>, an error or a status string. The loop is the
  \<^verbatim>\<open>goto checkVolumeStatus\<close> of the source, entered with \<^verbatim>\<open>retries = 0\<close>.
\<close>

function WaitForVolumeToBeReady_from ::
  "(nat \<Rightarrow> string \<Rightarrow> error + string) \<Rightarrow> string \<Rightarrow> nat \<Rightarrow> event list
     \<Rightarrow> error option \<times> event list" where
  "WaitForVolumeToBeReady_from getVolStatus volumeID retries evs =
     (case getVolStatus retries volumeID of
        Inl err \<Rightarrow> (Some err, evs @ [E_getVolStatus volumeID])
      | Inr volStatus \<Rightarrow>
          if volStatus = ''Healthy'' \<or> volStatus = ''Degraded''
          then (None, evs @ [E_getVolStatus volumeID])
          else if retries \<ge> VolumeWaitRetryCount
          then (Some ''Volume is not ready: Replicas yet to connect to controller'',
                evs @ [E_getVolStatus volumeID])
          else WaitForVolumeToBeReady_from getVolStatus volumeID (retries + 1)
                 (evs @ [E_getVolStatus volumeID, E_Sleep VolumeWaitTimeout]))"
  by pat_completeness auto
termination
  by (relation "measure (\<lambda>(g, v, retries, evs). VolumeWaitRetryCount - retries)") auto

declare WaitForVolumeToBeReady_from.simps [simp del]

definition WaitForVolumeToBeReady ::
  "(nat \<Rightarrow> string \<Rightarrow> error + string) \<Rightarrow> string \<Rightarrow> error option \<times> event list" where
  "WaitForVolumeToBeReady getVolStatus volumeID =
     WaitForVolumeToBeReady_from getVolStatus volumeID 0 []"

text \<open>
  \<^verbatim>\<open>WaitForVolumeToBeReachable\<close>. \<open>dial n targetPortal\<close> is the outcome of the
  \<^verbatim>\<open>net.Dial\<close> made when \<^verbatim>\<open>retries\<close> has the value \<open>n\<close>: \<open>None\<close> when the
  connection is made, the error otherwise.
\<close>

function WaitForVolumeToBeReachable_from ::
  "(nat \<Rightarrow> string \<Rightarrow> error option) \<Rightarrow> string \<Rightarrow> nat \<Rightarrow> event list
     \<Rightarrow> error option \<times> event list" where
  "WaitForVolumeToBeReachable_from dial targetPortal retries evs =
     (case dial retries targetPortal of
        None \<Rightarrow> (None, evs @ [E_Dial targetPortal])
      | Some err \<Rightarrow>
          if retries + 1 \<ge> VolumeWaitRetryCount
          then (Some (''iSCSI Target not reachable, TargetPortal '' @ targetPortal
                        @ '', err:'' @ err),
                evs @ [E_Dial targetPortal, E_Sleep VolumeWaitTimeout])
          else WaitForVolumeToBeReachable_from dial targetPortal (retries + 1)
                 (evs @ [E_Dial targetPortal, E_Sleep VolumeWaitTimeout]))"
  by pat_completeness auto
termination
  by (relation "measure (\<lambda>(d, p, retries, evs). VolumeWaitRetryCount - retries)") auto

declare WaitForVolumeToBeReachable_from.simps [simp del]

definition WaitForVolumeToBeReachable ::
  "(nat \<Rightarrow> string \<Rightarrow> error option) \<Rightarrow> string \<Rightarrow> error option \<times> event list" where
  "WaitForVolumeToBeReachable dial targetPortal =
     WaitForVolumeToBeReachable_from dial targetPortal 0 []"

section \<open>Shared state\<close>

text \<open>
  The process-wide variables of package \<^verbatim>\<open>utils\<close>. Volume objects live in a store and
  are referred to by address (the index in \<open>heap\<close>), because the source keeps pointers
  \<^verbatim>\<open>*apis.CSIVolume\<close>: the registry \<^verbatim>\<open>Volumes\<close> maps a volume id to a pointer, and the
  publish handler writes \<^verbatim>\<open>DevicePath\<close> through its own pointer. The object built by
  \<^verbatim>\<open>GetVolumeDetails\<close> is known to its handler alone until the handler stores the pointer
  in \<^verbatim>\<open>Volumes\<close>; the model keeps it as a value up to that point and enters it in the
  store there (\<open>alloc\<close>). Only pointers obtained from \<open>alloc\<close> are ever stored, so they are
  valid addresses (\<open>wf_state\<close>).
\<close>

record gstate =
  heap :: "CSIVolume list"
  Volumes :: "string \<rightharpoonup> nat"
  ReqMountList :: "string \<rightharpoonup> bool"

definition init_state :: gstate where
  "init_state = \<lparr>heap = [], Volumes = Map.empty, ReqMountList = Map.empty\<rparr>"

definition alloc :: "CSIVolume \<Rightarrow> gstate \<Rightarrow> nat \<times> gstate" where
  "alloc v s = (length (heap s), s\<lparr>heap := heap s @ [v]\<rparr>)"

definition Volumes_put :: "string \<Rightarrow> nat \<Rightarrow> gstate \<Rightarrow> gstate" where
  "Volumes_put volumeID vol s = s\<lparr>Volumes := (Volumes s)(volumeID \<mapsto> vol)\<rparr>"

definition Volumes_delete :: "string \<Rightarrow> gstate \<Rightarrow> gstate" where
  "Volumes_delete volumeID s = s\<lparr>Volumes := (Volumes s)(volumeID := None)\<rparr>"

definition set_DevicePath :: "nat \<Rightarrow> string \<Rightarrow> gstate \<Rightarrow> gstate" where
  "set_DevicePath vol devicePath s =
     s\<lparr>heap := (heap s)[vol := (heap s ! vol)\<lparr>DevicePath := devicePath\<rparr>]\<rparr>"

definition ReqMountList_put :: "string \<Rightarrow> gstate \<Rightarrow> gstate" where
  "ReqMountList_put name s = s\<lparr>ReqMountList := (ReqMountList s)(name \<mapsto> True)\<rparr>"

definition ReqMountList_delete :: "string \<Rightarrow> gstate \<Rightarrow> gstate" where
  "ReqMountList_delete name s = s\<lparr>ReqMountList := (ReqMountList s)(name := None)\<rparr>"

definition wf_state :: "gstate \<Rightarrow> bool" where
  "wf_state s \<longleftrightarrow> (\<forall>volumeID vol. Volumes s volumeID = Some vol \<longrightarrow> vol < length (heap s))"

section \<open>Volume details\<close>

text \<open>A Go map read of a missing key gives the zero value, the empty string.\<close>

definition attribute :: "(string \<rightharpoonup> string) \<Rightarrow> string \<Rightarrow> string" where
  "attribute m k = (case m k of None \<Rightarrow> [] | Some v \<Rightarrow> v)"

text \<open>
  \<^verbatim>\<open>GetVolumeDetails\<close>; \<open>fetch\<close> stands for the external \<^verbatim>\<open>FetchPVDetails\<close>. The new
  object has the zero value, the empty string, as its \<^verbatim>\<open>DevicePath\<close>.
\<close>

definition GetVolumeDetails ::
  "(string \<Rightarrow> error + PersistentVolume) \<Rightarrow> string \<Rightarrow> string \<Rightarrow> bool \<Rightarrow> string list
     \<Rightarrow> error + CSIVolume" where
  "GetVolumeDetails fetch volumeID mountPath readOnly mountOptions =
     (case fetch volumeID of
        Inl err \<Rightarrow> Inl err
      | Inr pv \<Rightarrow>
          Inr \<lparr>Name = volumeID,
               FSType = pvFSType pv,
               Capacity = pvCapacity pv,
               AccessModes = foldl (\<lambda>modes accessmode. modes @ [accessmode]) [] (pvAccessModes pv),
               MountPath = mountPath,
               ReadOnly = readOnly,
               MountOptions = mountOptions,
               DevicePath = [],
               Iqn = attribute (pvVolumeAttributes pv) ''iqn'',
               Lun = attribute (pvVolumeAttributes pv) ''lun'',
               IscsiInterface = attribute (pvVolumeAttributes pv) ''iscsiInterface'',
               TargetPortal = attribute (pvVolumeAttributes pv) ''targetPortal''\<rparr>)"

section \<open>Publish and unpublish handlers\<close>

datatype codes = InvalidArgument | Internal | Unimplemented

text \<open>A handler returns \<open>Inl (code, message)\<close> for \<^verbatim>\<open>status.Error(code, message)\<close>.\<close>

type_synonym response = "(codes \<times> string) + unit"

record VolumeCapability =
  MountFlags :: "string list option"

record NodePublishVolumeRequest =
  pub_VolumeId :: string
  pub_TargetPath :: string
  pub_VolumeCapability :: "VolumeCapability option"
  pub_Readonly :: bool

record NodeUnpublishVolumeRequest =
  unpub_VolumeId :: string
  unpub_TargetPath :: string

text \<open>
  What one call of \<^verbatim>\<open>NodePublishVolume\<close> gets from outside: the results of the external
  calls it makes, and what the other threads do to the shared state while the call holds
  no lock and blocks (in the twelve-second sleep; in chmod and attach+mount). Nothing
  shared is read before the first critical section, so the start state of a call stands
  for the shared state when \<^verbatim>\<open>VolumesListLock\<close> is first taken.
\<close>

record publish_env =
  x_FetchPVDetails :: "string \<Rightarrow> error + PersistentVolume"
  x_getVolStatus :: "nat \<Rightarrow> string \<Rightarrow> error + string"
  x_Dial :: "nat \<Rightarrow> string \<Rightarrow> error option"
  x_DeleteOldCSIVolumeCR :: "error option"
  x_CreateCSIVolumeCR :: "error option"
  x_ChmodMountPath :: "error option"
  x_AttachAndMountDisk :: "error + string"
  others_during_sleep :: "gstate \<Rightarrow> gstate"
  others_during_mount :: "gstate \<Rightarrow> gstate"

record unpublish_env =
  x_UnmountAndDetachDisk :: "error option"
  x_DeleteCSIVolumeCR :: "error option"
  others_during_teardown :: "gstate \<Rightarrow> gstate"

text \<open>
  The critical section that starts at the label \<^verbatim>\<open>verifyPublish\<close>: everything done
  between \<^verbatim>\<open>VolumesListLock.Lock()\<close> and the matching \<^verbatim>\<open>Unlock()\<close>.
\<close>

datatype verified = Published | UnderProgress | Failed error | Inserted nat

definition verifyPublish_locked ::
  "publish_env \<Rightarrow> string \<Rightarrow> string \<Rightarrow> string \<Rightarrow> CSIVolume \<Rightarrow> gstate
     \<Rightarrow> verified \<times> gstate \<times> event list" where
  "verifyPublish_locked env nodeID volumeID mountPath v s =
     (case Volumes s volumeID of
        Some info \<Rightarrow>
          if DevicePath (heap s ! info) \<noteq> [] then (Published, s, [])
          else (UnderProgress, s, [])
      | None \<Rightarrow>
          (case x_DeleteOldCSIVolumeCR env of
             Some err \<Rightarrow> (Failed err, s, [E_DeleteOldCSIVolumeCR v nodeID])
           | None \<Rightarrow>
               (case x_CreateCSIVolumeCR env of
                  Some err \<Rightarrow>
                    (Failed err, s,
                     [E_DeleteOldCSIVolumeCR v nodeID, E_CreateCSIVolumeCR v nodeID mountPath])
                | None \<Rightarrow>
                    (case alloc v s of
                       (vol, s1) \<Rightarrow>
                         (Inserted vol, Volumes_put volumeID vol s1,
                          [E_DeleteOldCSIVolumeCR v nodeID, E_CreateCSIVolumeCR v nodeID mountPath,
                           E_VolumesPut volumeID vol])))))"

text \<open>
  The \<^verbatim>\<open>goto verifyPublish\<close> loop with its flag \<^verbatim>\<open>reVerified\<close>: a record found with an
  empty device path is looked at again after one sleep, with the lock released.
\<close>

function verifyPublish ::
  "publish_env \<Rightarrow> string \<Rightarrow> string \<Rightarrow> string \<Rightarrow> CSIVolume \<Rightarrow> bool \<Rightarrow> gstate
     \<Rightarrow> verified \<times> gstate \<times> event list" where
  "verifyPublish env nodeID volumeID mountPath v reVerified s =
     (case verifyPublish_locked env nodeID volumeID mountPath v s of
        (UnderProgress, s1, evs) \<Rightarrow>
          if \<not> reVerified
          then (case verifyPublish env nodeID volumeID mountPath v True
                       (others_during_sleep env s1) of
                  (r, s2, evs') \<Rightarrow>
                    (r, s2, evs @ [E_Sleep (VolumeWaitRetryCount * VolumeWaitTimeout)] @ evs'))
          else (UnderProgress, s1, evs)
      | (r, s1, evs) \<Rightarrow> (r, s1, evs))"
  by pat_completeness auto
termination
  by (relation "measure (\<lambda>(env, n, i, m, v, reVerified, s). if reVerified then 0 else 1)") auto

declare verifyPublish.simps [simp del]

text \<open>
  The rest of the handler after the record is inserted and the lock released: chmod, then
  attach and mount, then the second critical section that writes the device path through
  the handler's own pointer.
\<close>

definition publish_mount ::
  "publish_env \<Rightarrow> nat \<Rightarrow> gstate \<Rightarrow> response \<times> gstate \<times> event list" where
  "publish_mount env vol s =
     (let chmod = E_ChmodMountPath (MountPath (heap s ! vol));
          s1 = others_during_mount env s
      in case x_ChmodMountPath env of
           Some err \<Rightarrow> (Inl (Internal, err), s1, [chmod])
         | None \<Rightarrow>
             (case x_AttachAndMountDisk env of
                Inl err \<Rightarrow> (Inl (Internal, err), s1, [chmod, E_AttachAndMountDisk vol])
              | Inr devicePath \<Rightarrow>
                  (Inr (), set_DevicePath vol devicePath s1,
                   [chmod, E_AttachAndMountDisk vol, E_SetDevicePath vol devicePath])))"

definition NodePublishVolume ::
  "publish_env \<Rightarrow> string \<Rightarrow> NodePublishVolumeRequest \<Rightarrow> gstate
     \<Rightarrow> response \<times> gstate \<times> event list" where
  "NodePublishVolume env nodeID req s =
     (case pub_VolumeCapability req of
        None \<Rightarrow> (Inl (InvalidArgument, ''Volume capability missing in request''), s, [])
      | Some capability \<Rightarrow>
          if length (pub_VolumeId req) = 0
          then (Inl (InvalidArgument, ''Volume ID missing in request''), s, [])
          else
            let mountPath = pub_TargetPath req;
                volumeID = pub_VolumeId req;
                mountOptions = (case MountFlags capability of None \<Rightarrow> [] | Some flags \<Rightarrow> flags)
            in (case GetVolumeDetails (x_FetchPVDetails env) volumeID mountPath
                      (pub_Readonly req) mountOptions of
                 Inl err \<Rightarrow> (Inl (Internal, err), s, [E_FetchPVDetails volumeID])
               | Inr v \<Rightarrow>
                   (case WaitForVolumeToBeReady (x_getVolStatus env) volumeID of
                      (Some err, e1) \<Rightarrow>
                        (Inl (Internal, err), s, E_FetchPVDetails volumeID # e1)
                    | (None, e1) \<Rightarrow>
                   (case WaitForVolumeToBeReachable (x_Dial env) (TargetPortal v) of
                      (Some err, e2) \<Rightarrow>
                        (Inl (Internal, err), s, E_FetchPVDetails volumeID # e1 @ e2)
                    | (None, e2) \<Rightarrow>
                   (case verifyPublish env nodeID volumeID mountPath v False s of
                      (Published, s1, e3) \<Rightarrow>
                        (Inr (), s1, E_FetchPVDetails volumeID # e1 @ e2 @ e3)
                    | (UnderProgress, s1, e3) \<Rightarrow>
                        (Inl (Internal, ''Mount under progress''), s1,
                         E_FetchPVDetails volumeID # e1 @ e2 @ e3)
                    | (Failed err, s1, e3) \<Rightarrow>
                        (Inl (Internal, err), s1, E_FetchPVDetails volumeID # e1 @ e2 @ e3)
                    | (Inserted vol, s1, e3) \<Rightarrow>
                        (case publish_mount env vol s1 of
                           (resp, s2, e4) \<Rightarrow>
                             (resp, s2, E_FetchPVDetails volumeID # e1 @ e2 @ e3 @ e4)))))))"

definition NodeUnpublishVolume ::
  "unpublish_env \<Rightarrow> NodeUnpublishVolumeRequest \<Rightarrow> gstate
     \<Rightarrow> response \<times> gstate \<times> event list" where
  "NodeUnpublishVolume env req s =
     (if length (unpub_VolumeId req) = 0
      then (Inl (InvalidArgument, ''Volume ID missing in request''), s, [])
      else if length (unpub_TargetPath req) = 0
      then (Inl (InvalidArgument, ''Target path missing in request''), s, [])
      else
        let volumeID = unpub_VolumeId req
        in (case Volumes s volumeID of
             None \<Rightarrow> (Inr (), s, [])
           | Some vol \<Rightarrow>
               let s1 = others_during_teardown env (Volumes_delete volumeID s);
                   teardown = [E_VolumesDelete volumeID,
                               E_UnmountAndDetachDisk vol (unpub_TargetPath req)]
               in (case x_UnmountAndDetachDisk env of
                    Some err \<Rightarrow> (Inl (Internal, err), s1, teardown)
                  | None \<Rightarrow>
                      (case x_DeleteCSIVolumeCR env of
                         Some err \<Rightarrow>
                           (Inl (Internal, err), s1, teardown @ [E_DeleteCSIVolumeCR vol])
                       | None \<Rightarrow> (Inr (), s1, teardown @ [E_DeleteCSIVolumeCR vol])))))"

section \<open>Mount supervisor and repair worker\<close>

text \<open>
  \<^verbatim>\<open>listContains\<close> returns a pointer and a flag; the flag is true exactly when the pointer
  is not nil, so the pair is an \<open>option\<close>.
\<close>

fun listContains :: "string \<Rightarrow> MountPoint list \<Rightarrow> MountPoint option" where
  "listContains mountPath [] = None"
| "listContains mountPath (info # list) =
     (if Path info = mountPath then Some info else listContains mountPath list)"

fun verifyMountOpts :: "string list \<Rightarrow> string \<Rightarrow> bool" where
  "verifyMountOpts [] desiredOpt = False"
| "verifyMountOpts (opt # opts) desiredOpt =
     (if opt = desiredOpt then True else verifyMountOpts opts desiredOpt)"

text \<open>The arguments of one \<^verbatim>\<open>go RemountVolume(exists, vol, mountPoint, desiredMountOpt)\<close>.\<close>

record goroutine =
  r_exists :: bool
  r_vol :: nat
  r_mountPoint :: "MountPoint option"
  r_desiredMountOpt :: string

text \<open>
  The body of the loop of \<^verbatim>\<open>MonitorMounts\<close> for one volume, up to the read of
  \<^verbatim>\<open>ReqMountList\<close>: either \<^verbatim>\<open>continue\<close>, or go on to mark the volume and spawn.
  The read \<^verbatim>\<open>_, isRemounting := ReqMountList[vol.Spec.Volume.Name]\<close> is made without
  \<^verbatim>\<open>ReqMountListLock\<close>, so what it yields is a parameter here: \<open>isRemounting\<close>.
\<close>

datatype inspected = Continue | Remount bool "MountPoint option"

definition MonitorMounts_inspect_read ::
  "MountPoint list \<Rightarrow> nat \<Rightarrow> gstate \<Rightarrow> bool \<Rightarrow> inspected \<times> event list" where
  "MonitorMounts_inspect_read list vol s isRemounting =
     (if DevicePath (heap s ! vol) = [] then (Continue, [])
      else
        (case listContains (MountPath (heap s ! vol)) list of
           Some mountPoint \<Rightarrow>
             if verifyMountOpts (Opts mountPoint) ''rw''
             then (Continue, [E_ListContains (MountPath (heap s ! vol))])
             else if isRemounting
             then (Continue, [E_ListContains (MountPath (heap s ! vol))])
             else (Remount True (Some mountPoint), [E_ListContains (MountPath (heap s ! vol))])
         | None \<Rightarrow>
             if isRemounting
             then (Continue, [E_ListContains (MountPath (heap s ! vol))])
             else (Remount False None, [E_ListContains (MountPath (heap s ! vol))])))"

text \<open>The loop body gets as far as the read of \<^verbatim>\<open>ReqMountList\<close>.\<close>

definition MonitorMounts_reads :: "MountPoint list \<Rightarrow> nat \<Rightarrow> gstate \<Rightarrow> bool" where
  "MonitorMounts_reads list vol s \<longleftrightarrow>
     DevicePath (heap s ! vol) \<noteq> []
     \<and> (case listContains (MountPath (heap s ! vol)) list of
          Some mountPoint \<Rightarrow> \<not> verifyMountOpts (Opts mountPoint) ''rw''
        | None \<Rightarrow> True)"

text \<open>
  The loop body when no other thread writes \<^verbatim>\<open>ReqMountList\<close> during the read: the read
  yields what the map holds.
\<close>

definition MonitorMounts_inspect ::
  "MountPoint list \<Rightarrow> nat \<Rightarrow> gstate \<Rightarrow> inspected \<times> event list" where
  "MonitorMounts_inspect list vol s =
     MonitorMounts_inspect_read list vol s (ReqMountList s (Name (heap s ! vol)) \<noteq> None)"

text \<open>The whole body for one volume, when no repair worker returns in between.\<close>

definition MonitorMounts_visit ::
  "MountPoint list \<Rightarrow> nat \<Rightarrow> gstate \<Rightarrow> gstate \<times> goroutine list \<times> event list" where
  "MonitorMounts_visit list vol s =
     (case MonitorMounts_inspect list vol s of
        (Continue, evs) \<Rightarrow> (s, [], evs)
      | (Remount exists mountPoint, evs) \<Rightarrow>
          (ReqMountList_put (Name (heap s ! vol)) s,
           [\<lparr>r_exists = exists, r_vol = vol, r_mountPoint = mountPoint,
             r_desiredMountOpt = MountPath (heap s ! vol)\<rparr>],
           evs @ [E_ReqMountPut (Name (heap s ! vol)),
                  E_GoRemountVolume exists vol mountPoint (MountPath (heap s ! vol))]))"

text \<open>
  One tick: the loop \<^verbatim>\<open>for _, vol := range Volumes\<close> run on the mount table \<open>list\<close> that
  \<^verbatim>\<open>mounter.List()\<close> returned. Go does not specify the order in which a map is ranged
  over; \<open>keys\<close> is the order of this tick. The result is the shared state, the goroutines
  spawned and the events, in order.
\<close>

fun MonitorMounts_range ::
  "MountPoint list \<Rightarrow> string list \<Rightarrow> gstate \<Rightarrow> gstate \<times> goroutine list \<times> event list" where
  "MonitorMounts_range list [] s = (s, [], [])"
| "MonitorMounts_range list (k # keys) s =
     (case Volumes s k of
        None \<Rightarrow> MonitorMounts_range list keys s
      | Some vol \<Rightarrow>
          (case MonitorMounts_visit list vol s of
             (s1, spawned1, evs1) \<Rightarrow>
               (case MonitorMounts_range list keys s1 of
                  (s2, spawned2, evs2) \<Rightarrow> (s2, spawned1 @ spawned2, evs1 @ evs2))))"

definition MonitorMounts_tick ::
  "MountPoint list \<Rightarrow> string list \<Rightarrow> gstate \<Rightarrow> gstate \<times> goroutine list \<times> event list" where
  "MonitorMounts_tick list keys s = MonitorMounts_range list keys s"

text \<open>
  \<^verbatim>\<open>WaitForVolumeReadyAndReachable\<close> loops until one pass has both probes succeed, and may
  loop forever: \<open>None\<close>. The oracles are indexed by the pass, then by the retry counter.
\<close>

partial_function (option) WaitForVolumeReadyAndReachable_from ::
  "(nat \<Rightarrow> nat \<Rightarrow> string \<Rightarrow> error + string) \<Rightarrow> (nat \<Rightarrow> nat \<Rightarrow> string \<Rightarrow> error option)
     \<Rightarrow> CSIVolume \<Rightarrow> nat \<Rightarrow> event list \<Rightarrow> event list option" where
  "WaitForVolumeReadyAndReachable_from getVolStatus dial v pass evs =
     (case WaitForVolumeToBeReady (getVolStatus pass) (Name v) of
        (Some err, e1) \<Rightarrow>
          WaitForVolumeReadyAndReachable_from getVolStatus dial v (pass + 1) (evs @ e1)
      | (None, e1) \<Rightarrow>
          (case WaitForVolumeToBeReachable (dial pass) (TargetPortal v) of
             (None, e2) \<Rightarrow> Some (evs @ e1 @ e2)
           | (Some err, e2) \<Rightarrow>
               WaitForVolumeReadyAndReachable_from getVolStatus dial v (pass + 1)
                 (evs @ e1 @ e2)))"

definition WaitForVolumeReadyAndReachable ::
  "(nat \<Rightarrow> nat \<Rightarrow> string \<Rightarrow> error + string) \<Rightarrow> (nat \<Rightarrow> nat \<Rightarrow> string \<Rightarrow> error option)
     \<Rightarrow> CSIVolume \<Rightarrow> event list option" where
  "WaitForVolumeReadyAndReachable getVolStatus dial v =
     WaitForVolumeReadyAndReachable_from getVolStatus dial v 0 []"

text \<open>
  What one run of \<^verbatim>\<open>RemountVolume\<close> gets from outside. The worker holds no lock while it
  waits and mounts; the other threads run meanwhile (\<open>others_during_repair\<close>).
\<close>

record remount_env =
  w_getVolStatus :: "nat \<Rightarrow> nat \<Rightarrow> string \<Rightarrow> error + string"
  w_Dial :: "nat \<Rightarrow> nat \<Rightarrow> string \<Rightarrow> error option"
  w_Mount :: "error option"
  w_AttachAndMountDisk :: "error + string"
  others_during_repair :: "gstate \<Rightarrow> gstate"

text \<open>
  \<^verbatim>\<open>RemountVolume\<close> returns \<^verbatim>\<open>(devicePath, err)\<close>, or panics on \<^verbatim>\<open>mountPoint.Path\<close> when
  called with \<^verbatim>\<open>exists\<close> true and a nil mount point, or never returns (\<open>None\<close>).
\<close>

datatype remounted = Returned string "error option" | Panicked

definition RemountVolume ::
  "remount_env \<Rightarrow> bool \<Rightarrow> nat \<Rightarrow> MountPoint option \<Rightarrow> string \<Rightarrow> gstate
     \<Rightarrow> (remounted \<times> gstate \<times> event list) option" where
  "RemountVolume env exists vol mountPoint desiredMountOpt s =
     (case WaitForVolumeReadyAndReachable (w_getVolStatus env) (w_Dial env) (heap s ! vol) of
        None \<Rightarrow> None
      | Some waited \<Rightarrow>
          let s1 = others_during_repair env s;
              name = Name (heap s1 ! vol)
          in if exists
             then (case mountPoint of
                     None \<Rightarrow> Some (Panicked, s1, waited)
                   | Some mp \<Rightarrow>
                       Some (Returned [] (w_Mount env), ReqMountList_delete name s1,
                             waited @ [E_Unmount (Path mp), E_Mount (Device mp) (Path mp) [''rw''],
                                       E_ReqMountDelete name]))
             else (case w_AttachAndMountDisk env of
                     Inl err \<Rightarrow>
                       Some (Returned [] (Some err), ReqMountList_delete name s1,
                             waited @ [E_AttachAndMountDisk vol, E_ReqMountDelete name])
                   | Inr devicePath \<Rightarrow>
                       Some (Returned devicePath None, ReqMountList_delete name s1,
                             waited @ [E_AttachAndMountDisk vol, E_ReqMountDelete name])))"

section \<open>Vocabulary for statements about one call\<close>

text \<open>
  \<open>details env req\<close> is the call of \<^verbatim>\<open>GetVolumeDetails\<close> that the publish handler makes for
  the request. A request is admitted with the volume object \<open>v\<close> when it passes the two
  argument checks, the lookup returns \<open>v\<close>, and both bounded probes succeed: the handler
  then reaches the label \<^verbatim>\<open>verifyPublish\<close>.
\<close>

definition details :: "publish_env \<Rightarrow> NodePublishVolumeRequest \<Rightarrow> error + CSIVolume" where
  "details env req =
     GetVolumeDetails (x_FetchPVDetails env) (pub_VolumeId req) (pub_TargetPath req)
       (pub_Readonly req)
       (case pub_VolumeCapability req of
          None \<Rightarrow> []
        | Some capability \<Rightarrow> (case MountFlags capability of None \<Rightarrow> [] | Some flags \<Rightarrow> flags))"

definition admitted :: "publish_env \<Rightarrow> NodePublishVolumeRequest \<Rightarrow> CSIVolume \<Rightarrow> bool" where
  "admitted env req v \<longleftrightarrow>
     pub_VolumeCapability req \<noteq> None \<and> pub_VolumeId req \<noteq> [] \<and> details env req = Inr v
     \<and> fst (WaitForVolumeToBeReady (x_getVolStatus env) (pub_VolumeId req)) = None
     \<and> fst (WaitForVolumeToBeReachable (x_Dial env) (TargetPortal v)) = None"

definition admission_events ::
  "publish_env \<Rightarrow> NodePublishVolumeRequest \<Rightarrow> CSIVolume \<Rightarrow> event list" where
  "admission_events env req v =
     E_FetchPVDetails (pub_VolumeId req)
       # snd (WaitForVolumeToBeReady (x_getVolStatus env) (pub_VolumeId req))
       @ snd (WaitForVolumeToBeReachable (x_Dial env) (TargetPortal v))"

text \<open>The events by which a handler touches an ownership record or the iSCSI client.\<close>

fun creates_ownership :: "event \<Rightarrow> bool" where
  "creates_ownership (E_CreateCSIVolumeCR v nodeID mountPath) = True"
| "creates_ownership e = False"

fun deletes_ownership :: "event \<Rightarrow> bool" where
  "deletes_ownership (E_DeleteCSIVolumeCR vol) = True"
| "deletes_ownership (E_DeleteOldCSIVolumeCR v nodeID) = True"
| "deletes_ownership e = False"

fun calls_iscsi :: "event \<Rightarrow> bool" where
  "calls_iscsi (E_AttachAndMountDisk vol) = True"
| "calls_iscsi (E_UnmountAndDetachDisk vol targetPath) = True"
| "calls_iscsi e = False"

section \<open>The node as a transition system\<close>

text \<open>
  All threads of the node plugin together. Besides the shared state a configuration records
  where each thread stands that still has a write to the shared state ahead of it:
  \<^item> \<open>publishing\<close>: the calls of \<^verbatim>\<open>NodePublishVolume\<close> that have inserted their record and
    have not yet returned, each with its volume id and its own pointer \<^verbatim>\<open>vol\<close>;
  \<^item> \<open>monitor\<close>: the program point of the one \<^verbatim>\<open>MonitorMounts\<close> goroutine;
  \<^item> \<open>repairing\<close>: the \<^verbatim>\<open>RemountVolume\<close> goroutines spawned and not yet returned;
  \<^item> \<open>deleting\<close>: the \<^verbatim>\<open>RemountVolume\<close> goroutine that holds \<^verbatim>\<open>ReqMountListLock\<close> and is
    inside \<^verbatim>\<open>delete(ReqMountList, vol.Spec.Volume.Name)\<close>, if any;
  \<^item> \<open>aborted\<close>: the Go runtime has stopped the process (\<^verbatim>\<open>fatal error: concurrent map
    read and map write\<close>).
\<close>

datatype monitor_pc =
    Idle
  | Ranging "string list" "MountPoint list"
  | Marking goroutine "string list" "MountPoint list"
  | Spawning goroutine "string list" "MountPoint list"

record system =
  shared :: gstate
  publishing :: "(string \<times> nat) list"
  monitor :: monitor_pc
  repairing :: "goroutine list"
  deleting :: "goroutine option"
  aborted :: bool

definition init_system :: system where
  "init_system = \<lparr>shared = init_state, publishing = [], monitor = Idle, repairing = [],
                   deleting = None, aborted = False\<rparr>"

text \<open>
  An action is one atomic step of one thread, with what it gets from outside. A step is
  atomic when it is a critical section of \<^verbatim>\<open>VolumesListLock\<close> or of \<^verbatim>\<open>ReqMountListLock\<close>,
  or a single access to a shared variable.
  \<^item> \<open>A_Verify\<close>: the critical section at \<^verbatim>\<open>verifyPublish\<close> of an admitted call;
  \<^item> \<open>A_MountFailed\<close>: chmod or attach+mount fails and the call returns;
  \<^item> \<open>A_Finalize\<close>: the critical section that writes \<^verbatim>\<open>vol.Spec.Volume.DevicePath\<close>;
  \<^item> \<open>A_Unpublish\<close>: the critical section of \<^verbatim>\<open>NodeUnpublishVolume\<close>;
  \<^item> \<open>A_Tick\<close>: the ticker fires, \<^verbatim>\<open>mounter.List()\<close> returns, the read lock is taken;
  \<^item> \<open>A_Inspect\<close>: the loop body for the next volume up to the read of \<^verbatim>\<open>ReqMountList\<close>,
    or the end of the loop and the release of the read lock; enabled for a body that reads
    \<^verbatim>\<open>ReqMountList\<close> only while no worker is inside its \<^verbatim>\<open>delete\<close>;
  \<^item> \<open>A_InspectRace\<close>: the same loop body when it reads \<^verbatim>\<open>ReqMountList\<close> while a worker
    is inside its \<^verbatim>\<open>delete\<close>. The monitor takes no lock for this read, so the read and the
    write are concurrent: a data race on a Go map. Either the runtime detects it and stops
    the process (outcome \<open>None\<close>), or the read goes on with a value that nothing
    determines (outcome \<open>Some isRemounting\<close>);
  \<^item> \<open>A_Mark\<close>: the critical section \<^verbatim>\<open>ReqMountList[name] = true\<close>;
  \<^item> \<open>A_Spawn\<close>: the \<^verbatim>\<open>go RemountVolume(...)\<close> statement;
  \<^item> \<open>A_RemountLock\<close>: a worker whose wait and mount calls have returned, whatever their
    results, takes \<^verbatim>\<open>ReqMountListLock\<close> and starts its \<^verbatim>\<open>delete\<close>;
  \<^item> \<open>A_RemountReturn\<close>: that worker's \<^verbatim>\<open>delete\<close> is done, it unlocks and returns.
  The writers of \<^verbatim>\<open>VolumesListLock\<close> wait while the monitor holds the read lock, and
  \<open>A_Mark\<close> waits while a worker holds \<^verbatim>\<open>ReqMountListLock\<close>. A tick may range over any
  list of keys; keys without a record are passed over. Nothing runs once the process is
  stopped.
\<close>

datatype action =
    A_Verify publish_env string NodePublishVolumeRequest CSIVolume
  | A_MountFailed string nat
  | A_Finalize string nat string
  | A_Unpublish string
  | A_Tick "string list" "MountPoint list"
  | A_Inspect
  | A_InspectRace "bool option"
  | A_Mark
  | A_Spawn
  | A_RemountLock goroutine
  | A_RemountReturn goroutine

fun fire :: "action \<Rightarrow> system \<Rightarrow> system option" where
  "fire (A_Verify env nodeID req v) c =
     (if \<not> aborted c \<and> monitor c = Idle \<and> admitted env req v
      then (case verifyPublish_locked env nodeID (pub_VolumeId req) (pub_TargetPath req) v
                   (shared c) of
              (Inserted vol, s', evs) \<Rightarrow>
                Some (c\<lparr>shared := s', publishing := (pub_VolumeId req, vol) # publishing c\<rparr>)
            | (outcome, s', evs) \<Rightarrow> Some (c\<lparr>shared := s'\<rparr>))
      else None)"
| "fire (A_MountFailed volumeID vol) c =
     (if \<not> aborted c \<and> (volumeID, vol) \<in> set (publishing c)
      then Some (c\<lparr>publishing := remove1 (volumeID, vol) (publishing c)\<rparr>)
      else None)"
| "fire (A_Finalize volumeID vol devicePath) c =
     (if \<not> aborted c \<and> monitor c = Idle \<and> (volumeID, vol) \<in> set (publishing c)
      then Some (c\<lparr>shared := set_DevicePath vol devicePath (shared c),
                   publishing := remove1 (volumeID, vol) (publishing c)\<rparr>)
      else None)"
| "fire (A_Unpublish volumeID) c =
     (if \<not> aborted c \<and> monitor c = Idle
      then (case Volumes (shared c) volumeID of
              None \<Rightarrow> Some c
            | Some vol \<Rightarrow> Some (c\<lparr>shared := Volumes_delete volumeID (shared c)\<rparr>))
      else None)"
| "fire (A_Tick keys list) c =
     (if \<not> aborted c \<and> monitor c = Idle then Some (c\<lparr>monitor := Ranging keys list\<rparr>)
      else None)"
| "fire A_Inspect c =
     (if aborted c then None
      else
        (case monitor c of
           Ranging [] list \<Rightarrow> Some (c\<lparr>monitor := Idle\<rparr>)
         | Ranging (k # keys) list \<Rightarrow>
             (case Volumes (shared c) k of
                None \<Rightarrow> Some (c\<lparr>monitor := Ranging keys list\<rparr>)
              | Some vol \<Rightarrow>
                  if deleting c \<noteq> None \<and> MonitorMounts_reads list vol (shared c) then None
                  else
                    (case fst (MonitorMounts_inspect list vol (shared c)) of
                       Continue \<Rightarrow> Some (c\<lparr>monitor := Ranging keys list\<rparr>)
                     | Remount exists mountPoint \<Rightarrow>
                         Some (c\<lparr>monitor :=
                                  Marking \<lparr>r_exists = exists, r_vol = vol,
                                           r_mountPoint = mountPoint,
                                           r_desiredMountOpt = MountPath (heap (shared c) ! vol)\<rparr>
                                    keys list\<rparr>)))
         | _ \<Rightarrow> None))"
| "fire (A_InspectRace raced) c =
     (if aborted c then None
      else
        (case monitor c of
           Ranging (k # keys) list \<Rightarrow>
             (case Volumes (shared c) k of
                None \<Rightarrow> None
              | Some vol \<Rightarrow>
                  if deleting c \<noteq> None \<and> MonitorMounts_reads list vol (shared c)
                  then
                    (case raced of
                       None \<Rightarrow> Some (c\<lparr>aborted := True\<rparr>)
                     | Some isRemounting \<Rightarrow>
                         (case fst (MonitorMounts_inspect_read list vol (shared c) isRemounting) of
                            Continue \<Rightarrow> Some (c\<lparr>monitor := Ranging keys list\<rparr>)
                          | Remount exists mountPoint \<Rightarrow>
                              Some (c\<lparr>monitor :=
                                       Marking \<lparr>r_exists = exists, r_vol = vol,
                                                r_mountPoint = mountPoint,
                                                r_desiredMountOpt =
                                                  MountPath (heap (shared c) ! vol)\<rparr>
                                         keys list\<rparr>)))
                  else None)
         | _ \<Rightarrow> None))"
| "fire A_Mark c =
     (if aborted c \<or> deleting c \<noteq> None then None
      else
        (case monitor c of
           Marking g keys list \<Rightarrow>
             Some (c\<lparr>shared := ReqMountList_put (Name (heap (shared c) ! r_vol g)) (shared c),
                     monitor := Spawning g keys list\<rparr>)
         | _ \<Rightarrow> None))"
| "fire A_Spawn c =
     (if aborted c then None
      else
        (case monitor c of
           Spawning g keys list \<Rightarrow>
             Some (c\<lparr>repairing := g # repairing c, monitor := Ranging keys list\<rparr>)
         | _ \<Rightarrow> None))"
| "fire (A_RemountLock g) c =
     (if \<not> aborted c \<and> deleting c = None \<and> g \<in> set (repairing c)
      then Some (c\<lparr>deleting := Some g\<rparr>)
      else None)"
| "fire (A_RemountReturn g) c =
     (if \<not> aborted c \<and> deleting c = Some g \<and> g \<in> set (repairing c)
      then Some (c\<lparr>shared := ReqMountList_delete (Name (heap (shared c) ! r_vol g)) (shared c),
                   repairing := remove1 g (repairing c), deleting := None\<rparr>)
      else None)"

text \<open>The configurations that some interleaving of the threads reaches.\<close>

inductive reachable :: "system \<Rightarrow> bool" where
  init: "reachable init_system"
| step: "reachable c \<Longrightarrow> fire a c = Some c' \<Longrightarrow> reachable c'"

text \<open>
  The configurations reached with every read of \<^verbatim>\<open>ReqMountList\<close> made while no worker is
  inside its \<^verbatim>\<open>delete\<close>, as a monitor would read that took \<^verbatim>\<open>ReqMountListLock\<close> for it.
\<close>

inductive race_free :: "system \<Rightarrow> bool" where
  init: "race_free init_system"
| step: "race_free c \<Longrightarrow> fire a c = Some c' \<Longrightarrow> (\<And>raced. a \<noteq> A_InspectRace raced)
           \<Longrightarrow> race_free c'"

text \<open>A run of actions, for concrete interleavings.\<close>

fun run :: "action list \<Rightarrow> system \<Rightarrow> system option" where
  "run [] c = Some c"
| "run (a # as) c = (case fire a c of None \<Rightarrow> None | Some c' \<Rightarrow> run as c')"

text \<open>The repair goroutines in flight for a volume name.\<close>

definition repairs_of :: "system \<Rightarrow> string \<Rightarrow> goroutine list" where
  "repairs_of c name =
     filter (\<lambda>g. Name (heap (shared c) ! r_vol g) = name) (repairing c)"

section \<open>Invariants of the transition system\<close>

text \<open>
  Every call between its insert and its return holds a pointer of its own to an object whose
  device path is still empty.
\<close>

definition publishers_ok :: "system \<Rightarrow> bool" where
  "publishers_ok c \<longleftrightarrow>
     wf_state (shared c)
     \<and> (\<forall>(volumeID, vol) \<in> set (publishing c).
           vol < length (heap (shared c)) \<and> DevicePath (heap (shared c) ! vol) = [])
     \<and> distinct (map snd (publishing c))"

definition task_name :: "system \<Rightarrow> goroutine \<Rightarrow> string" where
  "task_name c g = Name (heap (shared c) ! r_vol g)"

definition task_ok :: "system \<Rightarrow> goroutine \<Rightarrow> bool" where
  "task_ok c g \<longleftrightarrow>
     r_vol g < length (heap (shared c)) \<and> DevicePath (heap (shared c) ! r_vol g) \<noteq> []
     \<and> r_exists g = (r_mountPoint g \<noteq> None)"

text \<open>
  The goroutines in flight, and the one the monitor is about to mark or to spawn, have the
  arguments that the loop body gives them, and are for objects with a device path.
\<close>

definition tasks_ok :: "system \<Rightarrow> bool" where
  "tasks_ok c \<longleftrightarrow>
     (\<forall>g \<in> set (repairing c). task_ok c g)
     \<and> (case monitor c of
          Marking g keys list \<Rightarrow> task_ok c g
        | Spawning g keys list \<Rightarrow> task_ok c g
        | _ \<Rightarrow> True)"

text \<open>
  The repair goroutines in flight have different volume names, all in \<^verbatim>\<open>ReqMountList\<close>;
  the volume the monitor is about to mark or to spawn for has no goroutine in flight. This
  holds as long as no read of \<^verbatim>\<open>ReqMountList\<close> races with a \<^verbatim>\<open>delete\<close> (\<open>race_free\<close>).
\<close>

definition repairs_ok :: "system \<Rightarrow> bool" where
  "repairs_ok c \<longleftrightarrow>
     (\<forall>g \<in> set (repairing c).
        task_ok c g \<and> ReqMountList (shared c) (task_name c g) \<noteq> None)
     \<and> distinct (map (task_name c) (repairing c))
     \<and> (case monitor c of
          Marking g keys list \<Rightarrow>
            task_ok c g \<and> task_name c g \<notin> task_name c ` set (repairing c)
        | Spawning g keys list \<Rightarrow>
            task_ok c g \<and> task_name c g \<notin> task_name c ` set (repairing c)
            \<and> ReqMountList (shared c) (task_name c g) \<noteq> None
        | _ \<Rightarrow> True)"

section \<open>Concrete oracles\<close>

text \<open>
  An external collaborator whose successive answers are given by a list, and that answers
  \<open>rest\<close> once the list is used up. It makes concrete runs of the prober explicit.
\<close>

definition scripted :: "'a list \<Rightarrow> 'a \<Rightarrow> nat \<Rightarrow> string \<Rightarrow> 'a" where
  "scripted answers rest n x = (if n < length answers then answers ! n else rest)"

text \<open>\<open>probing e k\<close>: \<open>k\<close> rounds of the probe \<open>e\<close>, each followed by a sleep of \<open>T\<close> seconds.\<close>

definition probing :: "event \<Rightarrow> nat \<Rightarrow> event list" where
  "probing e k = concat (replicate k [e, E_Sleep VolumeWaitTimeout])"

section \<open>A concrete node\<close>

text \<open>
  One volume \<^verbatim>\<open>pvc-1\<close> with its persistent volume, a publish and an unpublish request for
  it, and collaborators that all succeed at once while no other thread runs.
\<close>

definition pv_1 :: PersistentVolume where
  "pv_1 = \<lparr>pvCapacity = ''5G'', pvAccessModes = [''ReadWriteOnce''], pvFSType = ''ext4'',
           pvVolumeAttributes = [''iqn'' \<mapsto> ''iqn.2016-09.com.openebs.cstor:pvc-1'',
                                 ''lun'' \<mapsto> ''0'', ''iscsiInterface'' \<mapsto> ''default'',
                                 ''targetPortal'' \<mapsto> ''10.0.0.7:3260'']\<rparr>"

definition publish_1 :: NodePublishVolumeRequest where
  "publish_1 = \<lparr>pub_VolumeId = ''pvc-1'', pub_TargetPath = ''/mnt/pvc-1'',
                pub_VolumeCapability = Some \<lparr>MountFlags = Some [''rw'']\<rparr>,
                pub_Readonly = False\<rparr>"

definition unpublish_1 :: NodeUnpublishVolumeRequest where
  "unpublish_1 = \<lparr>unpub_VolumeId = ''pvc-1'', unpub_TargetPath = ''/mnt/pvc-1''\<rparr>"

definition env_ok :: publish_env where
  "env_ok = \<lparr>x_FetchPVDetails = scripted [] (Inr pv_1) 0,
             x_getVolStatus = scripted [] (Inr ''Healthy''),
             x_Dial = scripted [] None,
             x_DeleteOldCSIVolumeCR = None,
             x_CreateCSIVolumeCR = None,
             x_ChmodMountPath = None,
             x_AttachAndMountDisk = Inr ''/dev/sdb'',
             others_during_sleep = id,
             others_during_mount = id\<rparr>"

definition uenv_ok :: unpublish_env where
  "uenv_ok = \<lparr>x_UnmountAndDetachDisk = None, x_DeleteCSIVolumeCR = None,
              others_during_teardown = id\<rparr>"

definition vol_1 :: CSIVolume where
  "vol_1 = \<lparr>Name = ''pvc-1'', FSType = ''ext4'', Capacity = ''5G'',
            AccessModes = [''ReadWriteOnce''], MountPath = ''/mnt/pvc-1'', ReadOnly = False,
            MountOptions = [''rw''], DevicePath = [],
            Iqn = ''iqn.2016-09.com.openebs.cstor:pvc-1'', Lun = ''0'',
            IscsiInterface = ''default'', TargetPortal = ''10.0.0.7:3260''\<rparr>"

text \<open>The shared state while \<^verbatim>\<open>pvc-1\<close> is being mounted, and once it is published.\<close>

definition mounting_1 :: gstate where
  "mounting_1 = \<lparr>heap = [vol_1], Volumes = [''pvc-1'' \<mapsto> 0], ReqMountList = Map.empty\<rparr>"

definition published_1 :: gstate where
  "published_1 = \<lparr>heap = [vol_1\<lparr>DevicePath := ''/dev/sdb''\<rparr>], Volumes = [''pvc-1'' \<mapsto> 0],
                  ReqMountList = Map.empty\<rparr>"

text \<open>
  A second volume \<^verbatim>\<open>pvc-2\<close> whose publish call has inserted its record and is still
  mounting, next to the published \<^verbatim>\<open>pvc-1\<close>.
\<close>

definition vol_2 :: CSIVolume where
  "vol_2 = \<lparr>Name = ''pvc-2'', FSType = ''ext4'', Capacity = ''1G'',
            AccessModes = [''ReadWriteOnce''], MountPath = ''/mnt/pvc-2'', ReadOnly = False,
            MountOptions = [], DevicePath = [],
            Iqn = ''iqn.2016-09.com.openebs.cstor:pvc-2'', Lun = ''0'',
            IscsiInterface = ''default'', TargetPortal = ''10.0.0.8:3260''\<rparr>"

definition two_volumes :: gstate where
  "two_volumes = \<lparr>heap = [vol_1\<lparr>DevicePath := ''/dev/sdb''\<rparr>, vol_2],
                  Volumes = [''pvc-1'' \<mapsto> 0, ''pvc-2'' \<mapsto> 1],
                  ReqMountList = Map.empty\<rparr>"

text \<open>
  An interleaving: \<^verbatim>\<open>pvc-1\<close> is published; then a tick finds its mount missing from an empty
  mount table, marks it and spawns the repair goroutine \<open>remount_1\<close>.
\<close>

definition remount_1 :: goroutine where
  "remount_1 = \<lparr>r_exists = False, r_vol = 0, r_mountPoint = None,
                r_desiredMountOpt = ''/mnt/pvc-1''\<rparr>"

definition interleaving_1 :: "action list" where
  "interleaving_1 = [A_Verify env_ok ''node-1'' publish_1 vol_1, A_Finalize ''pvc-1'' 0 ''/dev/sdb'',
                     A_Tick [''pvc-1''] [], A_Inspect, A_Mark, A_Spawn]"

definition repairing_1 :: system where
  "repairing_1 = \<lparr>shared = published_1\<lparr>ReqMountList := [''pvc-1'' \<mapsto> True]\<rparr>,
                  publishing = [], monitor = Ranging [] [], repairing = [remount_1],
                  deleting = None, aborted = False\<rparr>"

text \<open>Then the worker \<open>remount_1\<close> takes \<^verbatim>\<open>ReqMountListLock\<close> for its \<^verbatim>\<open>delete\<close>.\<close>

definition deleting_1 :: system where
  "deleting_1 = \<lparr>shared = published_1\<lparr>ReqMountList := [''pvc-1'' \<mapsto> True]\<rparr>,
                 publishing = [], monitor = Ranging [] [], repairing = [remount_1],
                 deleting = Some remount_1, aborted = False\<rparr>"

text \<open>An oracle of the repair worker that answers alike in every pass.\<close>

definition every_pass :: "'a \<Rightarrow> nat \<Rightarrow> 'a" where
  "every_pass oracle pass = oracle"

text \<open>A repair worker whose first pass of probes succeeds and whose attach+mount fails.\<close>

definition renv_attach_fails :: remount_env where
  "renv_attach_fails = \<lparr>w_getVolStatus = every_pass (scripted [] (Inr ''Healthy'')),
                        w_Dial = every_pass (scripted [] None),
                        w_Mount = None,
                        w_AttachAndMountDisk = Inl ''iscsiadm: login failed'',
                        others_during_repair = id\<rparr>"













section \<open>The readiness prober is bounded\<close>

lemma probing_Suc: "probing e (Suc k) = [e, E_Sleep VolumeWaitTimeout] @ probing e k"
  by (simp add: probing_def)

lemma probing_snoc: "probing e k @ [e, E_Sleep VolumeWaitTimeout] = probing e (Suc k)"
  by (induction k) (simp_all add: probing_def)

text \<open>
  The loop of \<^verbatim>\<open>WaitForVolumeToBeReady\<close>, entered with the counter at \<open>retries\<close>, runs up
  to the first query \<open>k\<close> that errs, reports a ready status, or is made with the counter at
  the bound.
\<close>

lemma WaitForVolumeToBeReady_from_run:
  assumes "retries \<le> k" and "k \<le> VolumeWaitRetryCount"
    and "\<forall>j. retries \<le> j \<and> j < k \<longrightarrow>
           (\<exists>st. getVolStatus j v = Inr st \<and> st \<noteq> ''Healthy'' \<and> st \<noteq> ''Degraded'')"
    and "case getVolStatus k v of Inl err \<Rightarrow> True
         | Inr st \<Rightarrow> st = ''Healthy'' \<or> st = ''Degraded'' \<or> k = VolumeWaitRetryCount"
  shows "WaitForVolumeToBeReady_from getVolStatus v retries evs =
           ((case getVolStatus k v of Inl err \<Rightarrow> Some err
             | Inr st \<Rightarrow> if st = ''Healthy'' \<or> st = ''Degraded'' then None
                 else Some ''Volume is not ready: Replicas yet to connect to controller''),
            evs @ probing (E_getVolStatus v) (k - retries) @ [E_getVolStatus v])"
  using assms
proof (induction "k - retries" arbitrary: retries evs)
  case 0
  then have "retries = k" by simp
  with "0.prems" show ?case
    by (subst WaitForVolumeToBeReady_from.simps) (auto simp: probing_def split: sum.splits)
next
  case (Suc d)
  then have lt: "retries < k" by simp
  with Suc.prems obtain st
    where st: "getVolStatus retries v = Inr st" "st \<noteq> ''Healthy''" "st \<noteq> ''Degraded''"
    by blast
  have d: "d = k - (retries + 1)" using Suc.hyps by simp
  have k: "k - retries = Suc (k - (retries + 1))" using lt by simp
  have IH: "WaitForVolumeToBeReady_from getVolStatus v (retries + 1)
              (evs @ [E_getVolStatus v, E_Sleep VolumeWaitTimeout]) =
           ((case getVolStatus k v of Inl err \<Rightarrow> Some err
             | Inr st \<Rightarrow> if st = ''Healthy'' \<or> st = ''Degraded'' then None
                 else Some ''Volume is not ready: Replicas yet to connect to controller''),
            (evs @ [E_getVolStatus v, E_Sleep VolumeWaitTimeout])
              @ probing (E_getVolStatus v) (k - (retries + 1)) @ [E_getVolStatus v])"
    using Suc.prems lt by (intro Suc.hyps(1)[OF d]) auto
  have "\<not> retries \<ge> VolumeWaitRetryCount" using lt Suc.prems(2) by simp
  then show ?case
    using st IH by (subst WaitForVolumeToBeReady_from.simps) (simp add: k probing_Suc)
qed

text \<open>
  The loop of \<^verbatim>\<open>WaitForVolumeToBeReachable\<close> runs up to the first dial \<open>k\<close> that
  connects, or to the dial made with the counter one below the bound.
\<close>

lemma WaitForVolumeToBeReachable_from_run:
  assumes "retries \<le> k" and "k < VolumeWaitRetryCount"
    and "\<forall>j. retries \<le> j \<and> j < k \<longrightarrow> dial j p \<noteq> None"
    and "dial k p = None \<or> k + 1 = VolumeWaitRetryCount"
  shows "WaitForVolumeToBeReachable_from dial p retries evs =
           (case dial k p of
              None \<Rightarrow> (None, evs @ probing (E_Dial p) (k - retries) @ [E_Dial p])
            | Some err \<Rightarrow>
                (Some (''iSCSI Target not reachable, TargetPortal '' @ p @ '', err:'' @ err),
                 evs @ probing (E_Dial p) (Suc (k - retries))))"
  using assms
proof (induction "k - retries" arbitrary: retries evs)
  case 0
  then have "retries = k" by simp
  with "0.prems" show ?case
    by (subst WaitForVolumeToBeReachable_from.simps) (auto simp: probing_def split: option.splits)
next
  case (Suc d)
  then have lt: "retries < k" by simp
  with Suc.prems obtain err where err: "dial retries p = Some err"
    by blast
  have d: "d = k - (retries + 1)" using Suc.hyps by simp
  have k: "k - retries = Suc (k - (retries + 1))" using lt by simp
  have IH: "WaitForVolumeToBeReachable_from dial p (retries + 1)
              (evs @ [E_Dial p, E_Sleep VolumeWaitTimeout]) =
           (case dial k p of
              None \<Rightarrow> (None, (evs @ [E_Dial p, E_Sleep VolumeWaitTimeout])
                          @ probing (E_Dial p) (k - (retries + 1)) @ [E_Dial p])
            | Some err \<Rightarrow>
                (Some (''iSCSI Target not reachable, TargetPortal '' @ p @ '', err:'' @ err),
                 (evs @ [E_Dial p, E_Sleep VolumeWaitTimeout])
                   @ probing (E_Dial p) (Suc (k - (retries + 1)))))"
    using Suc.prems lt by (intro Suc.hyps(1)[OF d]) auto
  have "\<not> retries + 1 \<ge> VolumeWaitRetryCount" using lt Suc.prems(2) by simp
  then show ?case
    using err IH
    by (subst WaitForVolumeToBeReachable_from.simps) (simp add: k probing_Suc split: option.splits)
qed

text \<open>
  Claim C6, as amended. \<open>R = 6\<close> and \<open>T = 2\<close>. \<^verbatim>\<open>WaitForVolumeToBeReady\<close> succeeds at the
  first query that reports \<^verbatim>\<open>Healthy\<close> or \<^verbatim>\<open>Degraded\<close>, among up to \<open>R + 1 = 7\<close> queries
  with a sleep of \<open>T\<close> seconds between two queries; it fails with "not ready" when all
  seven queries report another status, after \<open>R\<close> sleeps. \<^verbatim>\<open>WaitForVolumeToBeReachable\<close>
  fails after exactly \<open>R\<close> failed dials, each followed by a sleep of \<open>T\<close> seconds, and
  succeeds at the first dial that connects among the first \<open>R\<close>, the last of them included.
\<close>

theorem C6_probes_bounded:
  "VolumeWaitRetryCount = 6 \<and> VolumeWaitTimeout = 2
   \<and> (k \<le> VolumeWaitRetryCount
        \<and> (\<forall>j<k. \<exists>st. getVolStatus j v = Inr st \<and> st \<noteq> ''Healthy'' \<and> st \<noteq> ''Degraded'')
        \<and> (getVolStatus k v = Inr ''Healthy'' \<or> getVolStatus k v = Inr ''Degraded'')
      \<longrightarrow> WaitForVolumeToBeReady getVolStatus v
            = (None, probing (E_getVolStatus v) k @ [E_getVolStatus v]))
   \<and> ((\<forall>j\<le>VolumeWaitRetryCount.
          \<exists>st. getVolStatus j v = Inr st \<and> st \<noteq> ''Healthy'' \<and> st \<noteq> ''Degraded'')
      \<longrightarrow> WaitForVolumeToBeReady getVolStatus v
            = (Some ''Volume is not ready: Replicas yet to connect to controller'',
               probing (E_getVolStatus v) VolumeWaitRetryCount @ [E_getVolStatus v]))
   \<and> ((\<forall>j<VolumeWaitRetryCount. dial j p \<noteq> None)
      \<longrightarrow> (\<exists>err. WaitForVolumeToBeReachable dial p
                  = (Some err, probing (E_Dial p) VolumeWaitRetryCount)))
   \<and> (m < VolumeWaitRetryCount \<and> (\<forall>j<m. dial j p \<noteq> None) \<and> dial m p = None
      \<longrightarrow> WaitForVolumeToBeReachable dial p = (None, probing (E_Dial p) m @ [E_Dial p]))"
proof (intro conjI impI)
  show "VolumeWaitRetryCount = 6" by (simp add: VolumeWaitRetryCount_def)
  show "VolumeWaitTimeout = 2" by (simp add: VolumeWaitTimeout_def)
next
  assume a: "k \<le> VolumeWaitRetryCount
        \<and> (\<forall>j<k. \<exists>st. getVolStatus j v = Inr st \<and> st \<noteq> ''Healthy'' \<and> st \<noteq> ''Degraded'')
        \<and> (getVolStatus k v = Inr ''Healthy'' \<or> getVolStatus k v = Inr ''Degraded'')"
  then have "case getVolStatus k v of Inl err \<Rightarrow> True
         | Inr st \<Rightarrow> st = ''Healthy'' \<or> st = ''Degraded'' \<or> k = VolumeWaitRetryCount"
    by auto
  from WaitForVolumeToBeReady_from_run [of 0 k getVolStatus v "[]", OF _ _ _ this] a
  show "WaitForVolumeToBeReady getVolStatus v
          = (None, probing (E_getVolStatus v) k @ [E_getVolStatus v])"
    unfolding WaitForVolumeToBeReady_def by auto
next
  assume a: "\<forall>j\<le>VolumeWaitRetryCount.
          \<exists>st. getVolStatus j v = Inr st \<and> st \<noteq> ''Healthy'' \<and> st \<noteq> ''Degraded''"
  then obtain st where st: "getVolStatus VolumeWaitRetryCount v = Inr st"
      "st \<noteq> ''Healthy''" "st \<noteq> ''Degraded''"
    by blast
  then have "case getVolStatus VolumeWaitRetryCount v of Inl err \<Rightarrow> True
         | Inr st \<Rightarrow> st = ''Healthy'' \<or> st = ''Degraded''
             \<or> VolumeWaitRetryCount = VolumeWaitRetryCount"
    by simp
  from WaitForVolumeToBeReady_from_run
         [of 0 VolumeWaitRetryCount getVolStatus v "[]", OF _ _ _ this] a st
  show "WaitForVolumeToBeReady getVolStatus v
          = (Some ''Volume is not ready: Replicas yet to connect to controller'',
             probing (E_getVolStatus v) VolumeWaitRetryCount @ [E_getVolStatus v])"
    unfolding WaitForVolumeToBeReady_def by auto
next
  assume a: "\<forall>j<VolumeWaitRetryCount. dial j p \<noteq> None"
  have R: "VolumeWaitRetryCount = Suc 5" by (simp add: VolumeWaitRetryCount_def)
  have "(5::nat) < VolumeWaitRetryCount" by (simp add: VolumeWaitRetryCount_def)
  with a have "dial 5 p \<noteq> None" by blast
  then obtain err where err: "dial 5 p = Some err" by blast
  from WaitForVolumeToBeReachable_from_run [of 0 5 dial p "[]"] a err
  show "\<exists>err. WaitForVolumeToBeReachable dial p
           = (Some err, probing (E_Dial p) VolumeWaitRetryCount)"
    unfolding WaitForVolumeToBeReachable_def R by auto
next
  assume a: "m < VolumeWaitRetryCount \<and> (\<forall>j<m. dial j p \<noteq> None) \<and> dial m p = None"
  from WaitForVolumeToBeReachable_from_run [of 0 m dial p "[]"] a
  show "WaitForVolumeToBeReachable dial p = (None, probing (E_Dial p) m @ [E_Dial p])"
    unfolding WaitForVolumeToBeReachable_def by auto
qed

theorem C6_probes_bounded_witness:
  "WaitForVolumeToBeReady (scripted [Inr ''Offline'', Inr ''Init''] (Inr ''Degraded'')) ''pvc-1''
     = (None, probing (E_getVolStatus ''pvc-1'') 2 @ [E_getVolStatus ''pvc-1''])
   \<and> WaitForVolumeToBeReady (scripted [] (Inr ''Offline'')) ''pvc-1''
     = (Some ''Volume is not ready: Replicas yet to connect to controller'',
        probing (E_getVolStatus ''pvc-1'') 6 @ [E_getVolStatus ''pvc-1''])
   \<and> (\<exists>err. WaitForVolumeToBeReachable (scripted [] (Some ''connection refused''))
               ''10.0.0.7:3260''
             = (Some err, probing (E_Dial ''10.0.0.7:3260'') 6))
   \<and> WaitForVolumeToBeReachable (scripted (replicate 5 (Some ''connection refused'')) None)
        ''10.0.0.7:3260''
     = (None, probing (E_Dial ''10.0.0.7:3260'') 5 @ [E_Dial ''10.0.0.7:3260''])"
proof (intro conjI)
  have h1: "2 \<le> VolumeWaitRetryCount
      \<and> (\<forall>j<2. \<exists>st. scripted [Inr ''Offline'', Inr ''Init''] (Inr ''Degraded'') j ''pvc-1''
                        = Inr st \<and> st \<noteq> ''Healthy'' \<and> st \<noteq> ''Degraded'')
      \<and> (scripted [Inr ''Offline'', Inr ''Init''] (Inr ''Degraded'') 2 ''pvc-1'' = Inr ''Healthy''
         \<or> scripted [Inr ''Offline'', Inr ''Init''] (Inr ''Degraded'') 2 ''pvc-1''
             = Inr ''Degraded'')"
    by (auto simp: scripted_def less_2_cases_iff VolumeWaitRetryCount_def)
  show "WaitForVolumeToBeReady (scripted [Inr ''Offline'', Inr ''Init''] (Inr ''Degraded''))
          ''pvc-1''
        = (None, probing (E_getVolStatus ''pvc-1'') 2 @ [E_getVolStatus ''pvc-1''])"
    using C6_probes_bounded
            [of 2 "scripted [Inr ''Offline'', Inr ''Init''] (Inr ''Degraded'')" "''pvc-1''"
                "scripted [] None" "''10.0.0.7:3260''" 0] h1
    by blast
  have h2: "\<forall>j\<le>VolumeWaitRetryCount. \<exists>st. scripted [] (Inr ''Offline'') j ''pvc-1'' = Inr st
              \<and> st \<noteq> ''Healthy'' \<and> st \<noteq> ''Degraded''"
    by (simp add: scripted_def)
  have "WaitForVolumeToBeReady (scripted [] (Inr ''Offline'')) ''pvc-1''
        = (Some ''Volume is not ready: Replicas yet to connect to controller'',
           probing (E_getVolStatus ''pvc-1'') VolumeWaitRetryCount @ [E_getVolStatus ''pvc-1''])"
    using C6_probes_bounded [of 0 "scripted [] (Inr ''Offline'')" "''pvc-1''"
                               "scripted [] None" "''10.0.0.7:3260''" 0] h2
    by blast
  then show "WaitForVolumeToBeReady (scripted [] (Inr ''Offline'')) ''pvc-1''
        = (Some ''Volume is not ready: Replicas yet to connect to controller'',
           probing (E_getVolStatus ''pvc-1'') 6 @ [E_getVolStatus ''pvc-1''])"
    by (simp add: VolumeWaitRetryCount_def)
  have h3: "\<forall>j<VolumeWaitRetryCount.
              scripted [] (Some ''connection refused'') j ''10.0.0.7:3260'' \<noteq> None"
    by (simp add: scripted_def)
  have "\<exists>err. WaitForVolumeToBeReachable (scripted [] (Some ''connection refused''))
               ''10.0.0.7:3260''
             = (Some err, probing (E_Dial ''10.0.0.7:3260'') VolumeWaitRetryCount)"
    using C6_probes_bounded
            [of 0 "scripted [] (Inr ''Offline'')" "''pvc-1''"
                "scripted [] (Some ''connection refused'')" "''10.0.0.7:3260''" 0] h3
    by blast
  then show "\<exists>err. WaitForVolumeToBeReachable (scripted [] (Some ''connection refused''))
               ''10.0.0.7:3260''
             = (Some err, probing (E_Dial ''10.0.0.7:3260'') 6)"
    by (simp add: VolumeWaitRetryCount_def)
  have h4: "5 < VolumeWaitRetryCount
      \<and> (\<forall>j<5. scripted (replicate 5 (Some ''connection refused'')) None j ''10.0.0.7:3260''
                  \<noteq> None)
      \<and> scripted (replicate 5 (Some ''connection refused'')) None 5 ''10.0.0.7:3260'' = None"
    by (simp add: scripted_def VolumeWaitRetryCount_def)
  show "WaitForVolumeToBeReachable (scripted (replicate 5 (Some ''connection refused'')) None)
          ''10.0.0.7:3260''
        = (None, probing (E_Dial ''10.0.0.7:3260'') 5 @ [E_Dial ''10.0.0.7:3260''])"
    using C6_probes_bounded
            [of 0 "scripted [] (Inr ''Offline'')" "''pvc-1''"
                "scripted (replicate 5 (Some ''connection refused'')) None"
                "''10.0.0.7:3260''" 5] h4
    by blast
qed

text \<open>
  Claim C6 as stated fails: after six queries that all report \<^verbatim>\<open>Offline\<close> the function
  has not failed; it sleeps a sixth time, queries a seventh time and returns success when
  that query reports \<^verbatim>\<open>Healthy\<close>.
\<close>

theorem C6_ready_counterexample:
  "fst (WaitForVolumeToBeReady
          (scripted [Inr ''Offline'', Inr ''Offline'', Inr ''Offline'',
                     Inr ''Offline'', Inr ''Offline'', Inr ''Offline''] (Inr ''Healthy''))
          ''pvc-1'') = None
   \<and> count_list (snd (WaitForVolumeToBeReady
          (scripted [Inr ''Offline'', Inr ''Offline'', Inr ''Offline'',
                     Inr ''Offline'', Inr ''Offline'', Inr ''Offline''] (Inr ''Healthy''))
          ''pvc-1'')) (E_getVolStatus ''pvc-1'') = 7
   \<and> count_list (snd (WaitForVolumeToBeReady
          (scripted [Inr ''Offline'', Inr ''Offline'', Inr ''Offline'',
                     Inr ''Offline'', Inr ''Offline'', Inr ''Offline''] (Inr ''Healthy''))
          ''pvc-1'')) (E_Sleep 2) = 6"
  by code_simp

section \<open>One call of a handler\<close>

lemma WaitForVolumeToBeReady_from_events:
  "set (snd (WaitForVolumeToBeReady_from g v retries evs))
     \<subseteq> set evs \<union> {E_getVolStatus v, E_Sleep VolumeWaitTimeout}"
proof (induction g v retries evs rule: WaitForVolumeToBeReady_from.induct)
  case (1 g v retries evs)
  show ?case
  proof (cases "g retries v")
    case (Inl err)
    then show ?thesis by (subst WaitForVolumeToBeReady_from.simps) auto
  next
    case (Inr st)
    show ?thesis
    proof (cases "(st = ''Healthy'' \<or> st = ''Degraded'') \<or> retries \<ge> VolumeWaitRetryCount")
      case True
      with Inr show ?thesis by (subst WaitForVolumeToBeReady_from.simps) auto
    next
      case False
      with Inr "1.IH" [of st] show ?thesis
        by (subst WaitForVolumeToBeReady_from.simps) auto
    qed
  qed
qed

lemma WaitForVolumeToBeReachable_from_events:
  "set (snd (WaitForVolumeToBeReachable_from d p retries evs))
     \<subseteq> set evs \<union> {E_Dial p, E_Sleep VolumeWaitTimeout}"
proof (induction d p retries evs rule: WaitForVolumeToBeReachable_from.induct)
  case (1 d p retries evs)
  show ?case
  proof (cases "d retries p")
    case None
    then show ?thesis by (subst WaitForVolumeToBeReachable_from.simps) auto
  next
    case (Some err)
    show ?thesis
    proof (cases "retries + 1 \<ge> VolumeWaitRetryCount")
      case True
      with Some show ?thesis by (subst WaitForVolumeToBeReachable_from.simps) auto
    next
      case False
      with Some "1.IH" [of err] show ?thesis
        by (subst WaitForVolumeToBeReachable_from.simps) auto
    qed
  qed
qed

lemma Ready_events:
  "e \<in> set (snd (WaitForVolumeToBeReady g v)) \<Longrightarrow> e = E_getVolStatus v \<or> e = E_Sleep VolumeWaitTimeout"
  using WaitForVolumeToBeReady_from_events [of g v 0 "[]"]
  by (auto simp: WaitForVolumeToBeReady_def)

lemma Reachable_events:
  "e \<in> set (snd (WaitForVolumeToBeReachable d p)) \<Longrightarrow> e = E_Dial p \<or> e = E_Sleep VolumeWaitTimeout"
  using WaitForVolumeToBeReachable_from_events [of d p 0 "[]"]
  by (auto simp: WaitForVolumeToBeReachable_def)

lemma admission_events_cases:
  "e \<in> set (admission_events env req v) \<Longrightarrow>
     e = E_FetchPVDetails (pub_VolumeId req) \<or> e = E_getVolStatus (pub_VolumeId req)
     \<or> e = E_Dial (TargetPortal v) \<or> e = E_Sleep VolumeWaitTimeout"
  by (auto simp: admission_events_def dest: Ready_events Reachable_events)

text \<open>Up to the label \<^verbatim>\<open>verifyPublish\<close> the handler leaves the shared state alone.\<close>

lemma NodePublishVolume_not_admitted:
  assumes "\<not> (\<exists>v. admitted env req v)"
  shows "\<exists>e evs. NodePublishVolume env nodeID req s = (Inl e, s, evs)
           \<and> (\<forall>x \<in> set evs. \<exists>v. x \<in> set (admission_events env req v))"
proof (cases "pub_VolumeCapability req")
  case None
  then show ?thesis by (simp add: NodePublishVolume_def)
next
  case (Some capability)
  show ?thesis
  proof (cases "pub_VolumeId req = []")
    case True
    with Some show ?thesis by (simp add: NodePublishVolume_def)
  next
    case False
    show ?thesis
    proof (cases "details env req")
      case (Inl err)
      with Some False show ?thesis
        by (simp add: NodePublishVolume_def details_def Let_def admission_events_def)
    next
      case (Inr v)
      obtain r1 e1 where r1: "WaitForVolumeToBeReady (x_getVolStatus env) (pub_VolumeId req) = (r1, e1)"
        by (cases "WaitForVolumeToBeReady (x_getVolStatus env) (pub_VolumeId req)")
      obtain r2 e2 where r2: "WaitForVolumeToBeReachable (x_Dial env) (TargetPortal v) = (r2, e2)"
        by (cases "WaitForVolumeToBeReachable (x_Dial env) (TargetPortal v)")
      from assms Some False Inr r1 r2 have "r1 \<noteq> None \<or> r2 \<noteq> None"
        by (auto simp: admitted_def)
      with Some False Inr r1 r2 show ?thesis
        by (cases r1; cases r2)
           (auto simp: NodePublishVolume_def details_def Let_def admission_events_def
                 intro: exI [of _ v])
    qed
  qed
qed

lemma NodePublishVolume_admitted:
  assumes "admitted env req v"
  shows "NodePublishVolume env nodeID req s =
     (case verifyPublish env nodeID (pub_VolumeId req) (pub_TargetPath req) v False s of
        (Published, s1, e3) \<Rightarrow> (Inr (), s1, admission_events env req v @ e3)
      | (UnderProgress, s1, e3) \<Rightarrow>
          (Inl (Internal, ''Mount under progress''), s1, admission_events env req v @ e3)
      | (Failed err, s1, e3) \<Rightarrow> (Inl (Internal, err), s1, admission_events env req v @ e3)
      | (Inserted vol, s1, e3) \<Rightarrow>
          (case publish_mount env vol s1 of
             (resp, s2, e4) \<Rightarrow> (resp, s2, admission_events env req v @ e3 @ e4)))"
proof -
  from assms obtain capability where c: "pub_VolumeCapability req = Some capability"
    by (auto simp: admitted_def)
  obtain r1 e1 where r1: "WaitForVolumeToBeReady (x_getVolStatus env) (pub_VolumeId req) = (r1, e1)"
    by (cases "WaitForVolumeToBeReady (x_getVolStatus env) (pub_VolumeId req)")
  obtain r2 e2 where r2: "WaitForVolumeToBeReachable (x_Dial env) (TargetPortal v) = (r2, e2)"
    by (cases "WaitForVolumeToBeReachable (x_Dial env) (TargetPortal v)")
  from assms r1 r2 have n: "r1 = None" "r2 = None" "pub_VolumeId req \<noteq> []"
      and d: "GetVolumeDetails (x_FetchPVDetails env) (pub_VolumeId req) (pub_TargetPath req)
                (pub_Readonly req)
                (case MountFlags capability of None \<Rightarrow> [] | Some flags \<Rightarrow> flags) = Inr v"
    using c by (auto simp: admitted_def details_def)
  show ?thesis
    unfolding NodePublishVolume_def
    by (simp add: c n d r1 r2 Let_def admission_events_def
             split: prod.splits verified.splits)
qed

lemma verifyPublish_Published:
  "Volumes s volumeID = Some info \<Longrightarrow> DevicePath (heap s ! info) \<noteq> [] \<Longrightarrow>
   verifyPublish env nodeID volumeID mountPath v reVerified s = (Published, s, [])"
  by (subst verifyPublish.simps) (simp add: verifyPublish_locked_def)

lemma verifyPublish_second_UnderProgress:
  "Volumes s volumeID = Some info \<Longrightarrow> DevicePath (heap s ! info) = [] \<Longrightarrow>
   verifyPublish env nodeID volumeID mountPath v True s = (UnderProgress, s, [])"
  by (subst verifyPublish.simps) (simp add: verifyPublish_locked_def)

lemma verifyPublish_first_UnderProgress:
  "Volumes s volumeID = Some info \<Longrightarrow> DevicePath (heap s ! info) = [] \<Longrightarrow>
   verifyPublish env nodeID volumeID mountPath v False s =
     (case verifyPublish env nodeID volumeID mountPath v True (others_during_sleep env s) of
        (r, s2, evs) \<Rightarrow> (r, s2, E_Sleep (VolumeWaitRetryCount * VolumeWaitTimeout) # evs))"
  by (subst verifyPublish.simps) (simp add: verifyPublish_locked_def)

lemma verifyPublish_absent:
  "Volumes s volumeID = None \<Longrightarrow>
   verifyPublish env nodeID volumeID mountPath v reVerified s =
     verifyPublish_locked env nodeID volumeID mountPath v s"
  by (subst verifyPublish.simps)
     (auto simp: verifyPublish_locked_def alloc_def split: option.splits)

text \<open>The object of an admitted request is as \<^verbatim>\<open>GetVolumeDetails\<close> builds it.\<close>

lemma admitted_fresh:
  assumes "admitted env req v"
  shows "DevicePath v = []" and "MountPath v = pub_TargetPath req" and "Name v = pub_VolumeId req"
  using assms
  by (auto simp: admitted_def details_def GetVolumeDetails_def split: sum.splits)

text \<open>The critical section at \<^verbatim>\<open>verifyPublish\<close> either leaves the shared state alone or inserts.\<close>

lemma verifyPublish_locked_cases:
  assumes "verifyPublish_locked env nodeID volumeID mountPath v s = (r, s', evs)"
  shows "(s' = s \<and> (\<forall>vol. r \<noteq> Inserted vol))
       \<or> (r = Inserted (length (heap s)) \<and> Volumes s volumeID = None
          \<and> s' = s\<lparr>heap := heap s @ [v], Volumes := (Volumes s)(volumeID \<mapsto> length (heap s))\<rparr>)"
  using assms
  by (auto simp: verifyPublish_locked_def alloc_def Volumes_put_def
           split: option.splits if_splits)

text \<open>
  When the \<^verbatim>\<open>goto\<close> loop ends with the record inserted, the insert was made at the first
  look, or at the second look after the sleep; in both cases no record was there.
\<close>

lemma verifyPublish_Inserted:
  assumes "verifyPublish env nodeID volumeID mountPath v False s = (Inserted vol, s1, e3)"
  shows "\<exists>s0 slept.
           (slept = [] \<and> s0 = s
            \<or> slept = [E_Sleep (VolumeWaitRetryCount * VolumeWaitTimeout)]
               \<and> s0 = others_during_sleep env s)
           \<and> Volumes s0 volumeID = None \<and> vol = length (heap s0)
           \<and> x_DeleteOldCSIVolumeCR env = None \<and> x_CreateCSIVolumeCR env = None
           \<and> s1 = Volumes_put volumeID vol (snd (alloc v s0))
           \<and> e3 = slept @ [E_DeleteOldCSIVolumeCR v nodeID,
                            E_CreateCSIVolumeCR v nodeID mountPath, E_VolumesPut volumeID vol]"
proof -
  have locked: "Volumes s0 volumeID = None \<and> vol = length (heap s0)
           \<and> x_DeleteOldCSIVolumeCR env = None \<and> x_CreateCSIVolumeCR env = None
           \<and> s1 = Volumes_put volumeID vol (snd (alloc v s0))
           \<and> e = [E_DeleteOldCSIVolumeCR v nodeID,
                    E_CreateCSIVolumeCR v nodeID mountPath, E_VolumesPut volumeID vol]"
    if "verifyPublish_locked env nodeID volumeID mountPath v s0 = (Inserted vol, s1, e)"
    for s0 e
    using that
    by (auto simp: verifyPublish_locked_def alloc_def split: option.splits if_splits)
  show ?thesis
  proof (cases "Volumes s volumeID")
    case None
    with assms have "verifyPublish_locked env nodeID volumeID mountPath v s = (Inserted vol, s1, e3)"
      by (simp add: verifyPublish_absent)
    from locked [OF this] show ?thesis by auto
  next
    case (Some info)
    show ?thesis
    proof (cases "DevicePath (heap s ! info) = []")
      case False
      with assms Some show ?thesis by (simp add: verifyPublish_Published)
    next
      case True
      let ?s2 = "others_during_sleep env s"
      obtain r s' e where again: "verifyPublish env nodeID volumeID mountPath v True ?s2 = (r, s', e)"
        by (cases "verifyPublish env nodeID volumeID mountPath v True ?s2")
      with assms Some True
      have r: "r = Inserted vol" "s' = s1"
          "e3 = E_Sleep (VolumeWaitRetryCount * VolumeWaitTimeout) # e"
        by (simp_all add: verifyPublish_first_UnderProgress)
      show ?thesis
      proof (cases "Volumes ?s2 volumeID")
        case None
        with again r
        have "verifyPublish_locked env nodeID volumeID mountPath v ?s2 = (Inserted vol, s1, e)"
          by (simp add: verifyPublish_absent)
        from locked [OF this] r show ?thesis by auto
      next
        case (Some info')
        with again r show ?thesis
          by (cases "DevicePath (heap ?s2 ! info') = []")
             (simp_all add: verifyPublish_Published verifyPublish_second_UnderProgress)
      qed
    qed
  qed
qed

section \<open>The concrete node\<close>

lemma details_1: "details env_ok publish_1 = Inr vol_1"
  by (simp add: details_def env_ok_def publish_1_def vol_1_def pv_1_def GetVolumeDetails_def
        scripted_def attribute_def)

lemma Ready_at_once:
  "g 0 v = Inr ''Healthy'' \<Longrightarrow> WaitForVolumeToBeReady g v = (None, [E_getVolStatus v])"
  unfolding WaitForVolumeToBeReady_def
  by (subst WaitForVolumeToBeReady_from.simps) simp

lemma Reachable_at_once:
  "d 0 p = None \<Longrightarrow> WaitForVolumeToBeReachable d p = (None, [E_Dial p])"
  unfolding WaitForVolumeToBeReachable_def
  by (subst WaitForVolumeToBeReachable_from.simps) simp

lemma admitted_1: "admitted env_ok publish_1 vol_1"
  unfolding admitted_def
  by (simp add: details_1 Ready_at_once Reachable_at_once)
     (simp add: env_ok_def publish_1_def scripted_def Ready_at_once Reachable_at_once)

lemma admission_events_1:
  "admission_events env_ok publish_1 vol_1
     = [E_FetchPVDetails ''pvc-1'', E_getVolStatus ''pvc-1'', E_Dial ''10.0.0.7:3260'']"
  by (simp add: admission_events_def env_ok_def publish_1_def scripted_def Ready_at_once
        Reachable_at_once vol_1_def)

text \<open>The happy path: the code itself takes the fresh node to \<open>published_1\<close>.\<close>

lemma publish_1_from_init:
  "NodePublishVolume env_ok ''node-1'' publish_1 init_state
     = (Inr (), published_1,
        [E_FetchPVDetails ''pvc-1'', E_getVolStatus ''pvc-1'', E_Dial ''10.0.0.7:3260'',
         E_DeleteOldCSIVolumeCR vol_1 ''node-1'', E_CreateCSIVolumeCR vol_1 ''node-1'' ''/mnt/pvc-1'',
         E_VolumesPut ''pvc-1'' 0, E_ChmodMountPath ''/mnt/pvc-1'', E_AttachAndMountDisk 0,
         E_SetDevicePath 0 ''/dev/sdb''])"
  by (subst NodePublishVolume_admitted [OF admitted_1], subst admission_events_1)+
     (simp add: verifyPublish_absent init_state_def verifyPublish_locked_def alloc_def
        Volumes_put_def publish_mount_def set_DevicePath_def published_1_def env_ok_def
        publish_1_def vol_1_def)

section \<open>Claims about one call\<close>

text \<open>
  Claim C10. When the first query of the health oracle returns an error,
  \<^verbatim>\<open>WaitForVolumeToBeReady\<close> returns that error after this single query, without a sleep
  and without a retry; \<^verbatim>\<open>NodePublishVolume\<close>, which calls it after the argument checks
  and the volume lookup, then returns \<^verbatim>\<open>Internal\<close> with that error, having done nothing
  else and leaving the shared state as it was.
\<close>

theorem C10_oracle_error_fails_fast:
  "(getVolStatus 0 volumeID = Inl err
      \<longrightarrow> WaitForVolumeToBeReady getVolStatus volumeID = (Some err, [E_getVolStatus volumeID]))
   \<and> (pub_VolumeCapability req \<noteq> None \<and> pub_VolumeId req \<noteq> [] \<and> details env req = Inr v
        \<and> x_getVolStatus env 0 (pub_VolumeId req) = Inl err
      \<longrightarrow> NodePublishVolume env nodeID req s
            = (Inl (Internal, err), s,
               [E_FetchPVDetails (pub_VolumeId req), E_getVolStatus (pub_VolumeId req)]))"
proof (intro conjI impI)
  assume "getVolStatus 0 volumeID = Inl err"
  then show "WaitForVolumeToBeReady getVolStatus volumeID = (Some err, [E_getVolStatus volumeID])"
    unfolding WaitForVolumeToBeReady_def
    by (subst WaitForVolumeToBeReady_from.simps) simp
next
  assume a: "pub_VolumeCapability req \<noteq> None \<and> pub_VolumeId req \<noteq> [] \<and> details env req = Inr v
        \<and> x_getVolStatus env 0 (pub_VolumeId req) = Inl err"
  then have w: "WaitForVolumeToBeReady (x_getVolStatus env) (pub_VolumeId req)
                  = (Some err, [E_getVolStatus (pub_VolumeId req)])"
    unfolding WaitForVolumeToBeReady_def
    by (subst WaitForVolumeToBeReady_from.simps) simp
  from a obtain capability where c: "pub_VolumeCapability req = Some capability" by auto
  with a have d: "GetVolumeDetails (x_FetchPVDetails env) (pub_VolumeId req) (pub_TargetPath req)
                (pub_Readonly req)
                (case MountFlags capability of None \<Rightarrow> [] | Some flags \<Rightarrow> flags) = Inr v"
    by (simp add: details_def)
  from a show "NodePublishVolume env nodeID req s
            = (Inl (Internal, err), s,
               [E_FetchPVDetails (pub_VolumeId req), E_getVolStatus (pub_VolumeId req)])"
    unfolding NodePublishVolume_def by (simp add: c d w Let_def)
qed

theorem C10_oracle_error_fails_fast_witness:
  "WaitForVolumeToBeReady (scripted [Inl ''cstorvolume not found''] (Inr ''Healthy'')) ''pvc-1''
     = (Some ''cstorvolume not found'', [E_getVolStatus ''pvc-1''])
   \<and> NodePublishVolume
        (env_ok\<lparr>x_getVolStatus := scripted [Inl ''cstorvolume not found''] (Inr ''Healthy'')\<rparr>)
        ''node-1'' publish_1 init_state
     = (Inl (Internal, ''cstorvolume not found''), init_state,
        [E_FetchPVDetails ''pvc-1'', E_getVolStatus ''pvc-1''])"
proof -
  have d: "details (env_ok\<lparr>x_getVolStatus :=
               scripted [Inl ''cstorvolume not found''] (Inr ''Healthy'')\<rparr>) publish_1 = Inr vol_1"
    using details_1 by (simp add: details_def env_ok_def)
  show ?thesis
    using C10_oracle_error_fails_fast
            [of "scripted [Inl ''cstorvolume not found''] (Inr ''Healthy'')" "''pvc-1''"
                "''cstorvolume not found''" publish_1
                "env_ok\<lparr>x_getVolStatus :=
                   scripted [Inl ''cstorvolume not found''] (Inr ''Healthy'')\<rparr>"
                vol_1 "''node-1''" init_state] d
    by (simp add: scripted_def publish_1_def)
qed

text \<open>
  Claim C1, as amended. While the registry holds a record for the volume with a device path,
  \<^verbatim>\<open>NodePublishVolume\<close> never creates an ownership record, never calls the iSCSI client
  and leaves the shared state as it is, whatever it returns; it returns success when the
  request is admitted (argument checks, volume lookup and both bounded probes pass), and an
  error otherwise. While the registry holds no record for the volume,
  \<^verbatim>\<open>NodeUnpublishVolume\<close> does nothing outside the handler and leaves the shared state as it
  is; it returns success when volume id and target path are present.
\<close>

theorem C1_idempotent:
  "(Volumes s (pub_VolumeId req) = Some info \<and> DevicePath (heap s ! info) \<noteq> []
      \<longrightarrow> (case NodePublishVolume env nodeID req s of
             (resp, s', evs) \<Rightarrow>
               s' = s \<and> \<not> list_ex creates_ownership evs \<and> \<not> list_ex calls_iscsi evs
               \<and> (resp = Inr ()) = (\<exists>v. admitted env req v)))
   \<and> (Volumes s (unpub_VolumeId ureq) = None
      \<longrightarrow> (case NodeUnpublishVolume uenv ureq s of
             (resp, s', evs) \<Rightarrow>
               s' = s \<and> evs = []
               \<and> (resp = Inr ()) = (unpub_VolumeId ureq \<noteq> [] \<and> unpub_TargetPath ureq \<noteq> [])))"
proof (intro conjI impI)
  assume a: "Volumes s (pub_VolumeId req) = Some info \<and> DevicePath (heap s ! info) \<noteq> []"
  show "case NodePublishVolume env nodeID req s of
             (resp, s', evs) \<Rightarrow>
               s' = s \<and> \<not> list_ex creates_ownership evs \<and> \<not> list_ex calls_iscsi evs
               \<and> (resp = Inr ()) = (\<exists>v. admitted env req v)"
  proof (cases "\<exists>v. admitted env req v")
    case True
    then obtain v where v: "admitted env req v" ..
    have "\<And>e. e \<in> set (admission_events env req v) \<Longrightarrow> \<not> creates_ownership e \<and> \<not> calls_iscsi e"
      by (auto dest!: admission_events_cases)
    then have "\<not> list_ex creates_ownership (admission_events env req v)"
        "\<not> list_ex calls_iscsi (admission_events env req v)"
      by (auto simp: list_ex_iff)
    with a v show ?thesis
      by (auto simp: NodePublishVolume_admitted [OF v] verifyPublish_Published)
  next
    case False
    from NodePublishVolume_not_admitted [OF False, of nodeID s]
    obtain e evs where r: "NodePublishVolume env nodeID req s = (Inl e, s, evs)"
        and evs: "\<forall>x \<in> set evs. \<exists>v. x \<in> set (admission_events env req v)"
      by blast
    have "\<And>x. x \<in> set evs \<Longrightarrow> \<not> creates_ownership x \<and> \<not> calls_iscsi x"
      using evs by (auto dest!: admission_events_cases)
    then have "\<not> list_ex creates_ownership evs" "\<not> list_ex calls_iscsi evs"
      by (auto simp: list_ex_iff)
    with r False show ?thesis by simp
  qed
next
  assume "Volumes s (unpub_VolumeId ureq) = None"
  then show "case NodeUnpublishVolume uenv ureq s of
             (resp, s', evs) \<Rightarrow>
               s' = s \<and> evs = []
               \<and> (resp = Inr ()) = (unpub_VolumeId ureq \<noteq> [] \<and> unpub_TargetPath ureq \<noteq> [])"
    by (auto simp: NodeUnpublishVolume_def Let_def)
qed

theorem C1_idempotent_witness:
  "NodePublishVolume env_ok ''node-1'' publish_1 published_1
     = (Inr (), published_1,
        [E_FetchPVDetails ''pvc-1'', E_getVolStatus ''pvc-1'', E_Dial ''10.0.0.7:3260''])
   \<and> NodeUnpublishVolume uenv_ok unpublish_1 init_state = (Inr (), init_state, [])"
proof -
  have p: "Volumes published_1 (pub_VolumeId publish_1) = Some 0
           \<and> DevicePath (heap published_1 ! 0) \<noteq> []"
    by (simp add: published_1_def publish_1_def)
  have u: "Volumes init_state (unpub_VolumeId unpublish_1) = None"
    by (simp add: init_state_def)
  have e: "snd (snd (NodePublishVolume env_ok ''node-1'' publish_1 published_1))
             = [E_FetchPVDetails ''pvc-1'', E_getVolStatus ''pvc-1'', E_Dial ''10.0.0.7:3260'']"
    using p by (simp add: NodePublishVolume_admitted [OF admitted_1] verifyPublish_Published
                   admission_events_1)
  from C1_idempotent [of published_1 publish_1 0 env_ok "''node-1''" unpublish_1 uenv_ok] p
    C1_idempotent [of init_state publish_1 0 env_ok "''node-1''" unpublish_1 uenv_ok] u
    admitted_1 e
  show ?thesis
    by (auto simp: unpublish_1_def split: prod.splits)
qed

text \<open>
  Claim C1 as stated fails: the record of \<^verbatim>\<open>pvc-1\<close> exists with a device path, and a
  well-formed publish request for it is answered with \<^verbatim>\<open>Internal\<close>, because the volume is
  reported \<^verbatim>\<open>Offline\<close> and the readiness probe runs before the registry is looked at.
  Likewise an unpublish request for a volume without a record is answered with
  \<^verbatim>\<open>InvalidArgument\<close> when it carries no target path.
\<close>

theorem C1_publish_counterexample:
  "Volumes published_1 (pub_VolumeId publish_1) = Some 0
   \<and> DevicePath (heap published_1 ! 0) = ''/dev/sdb''
   \<and> fst (NodePublishVolume (env_ok\<lparr>x_getVolStatus := scripted [] (Inr ''Offline'')\<rparr>)
            ''node-1'' publish_1 published_1)
       = Inl (Internal, ''Volume is not ready: Replicas yet to connect to controller'')
   \<and> Volumes init_state ''pvc-1'' = None
   \<and> fst (NodeUnpublishVolume uenv_ok \<lparr>unpub_VolumeId = ''pvc-1'', unpub_TargetPath = []\<rparr>
            init_state)
       = Inl (InvalidArgument, ''Target path missing in request'')"
proof -
  have w: "WaitForVolumeToBeReady (scripted [] (Inr ''Offline'')) ''pvc-1''
             = (Some ''Volume is not ready: Replicas yet to connect to controller'',
                probing (E_getVolStatus ''pvc-1'') 6 @ [E_getVolStatus ''pvc-1''])"
    by code_simp
  show ?thesis
    by (simp add: published_1_def publish_1_def NodePublishVolume_def env_ok_def Let_def
          GetVolumeDetails_def scripted_def NodeUnpublishVolume_def init_state_def)
       (subst w, simp)
qed

text \<open>
  Claim C4. An admitted publish request that finds the record of its volume with an empty
  device path sleeps \<open>R \<cdot> T = 12\<close> seconds, with the lock released (the other threads run:
  \<open>others_during_sleep\<close>), and looks again. If the record then has a device path the handler
  returns success; if the record still has an empty device path it returns \<^verbatim>\<open>Internal\<close>,
  "Mount under progress". In both cases the sleep is the only thing the handler does after
  admission, and it leaves the shared state as the other threads left it. Whatever the
  second look finds, the handler sleeps exactly once.
\<close>

theorem C4_duplicate_publish_during_mount:
  assumes "admitted env req v"
    and "Volumes s (pub_VolumeId req) = Some info" and "DevicePath (heap s ! info) = []"
  shows "VolumeWaitRetryCount * VolumeWaitTimeout = 12
    \<and> (case NodePublishVolume env nodeID req s of
         (resp, s', evs) \<Rightarrow>
           count_list evs (E_Sleep (VolumeWaitRetryCount * VolumeWaitTimeout)) = 1
           \<and> (\<forall>info'. Volumes (others_during_sleep env s) (pub_VolumeId req) = Some info'
                \<longrightarrow> s' = others_during_sleep env s
                    \<and> evs = admission_events env req v
                              @ [E_Sleep (VolumeWaitRetryCount * VolumeWaitTimeout)]
                    \<and> resp = (if DevicePath (heap (others_during_sleep env s) ! info') \<noteq> []
                              then Inr ()
                              else Inl (Internal, ''Mount under progress''))))"
proof -
  let ?nap = "E_Sleep (VolumeWaitRetryCount * VolumeWaitTimeout)"
  let ?s2 = "others_during_sleep env s"
  let ?again = "verifyPublish env nodeID (pub_VolumeId req) (pub_TargetPath req) v True ?s2"
  have twelve: "VolumeWaitRetryCount * VolumeWaitTimeout = 12"
    by (simp add: VolumeWaitRetryCount_def VolumeWaitTimeout_def)
  have "?nap \<notin> set (admission_events env req v)"
    by (auto dest!: admission_events_cases simp: VolumeWaitRetryCount_def VolumeWaitTimeout_def)
  then have adm0: "count_list (admission_events env req v) ?nap = 0"
    by (simp add: count_list_0_iff)
  have run: "NodePublishVolume env nodeID req s =
     (case ?again of
        (Published, s1, e3) \<Rightarrow> (Inr (), s1, admission_events env req v @ ?nap # e3)
      | (UnderProgress, s1, e3) \<Rightarrow>
          (Inl (Internal, ''Mount under progress''), s1, admission_events env req v @ ?nap # e3)
      | (Failed err, s1, e3) \<Rightarrow> (Inl (Internal, err), s1, admission_events env req v @ ?nap # e3)
      | (Inserted vol, s1, e3) \<Rightarrow>
          (case publish_mount env vol s1 of
             (resp, s2, e4) \<Rightarrow> (resp, s2, admission_events env req v @ ?nap # e3 @ e4)))"
    by (simp add: NodePublishVolume_admitted [OF assms(1)]
          verifyPublish_first_UnderProgress [OF assms(2,3)]
          split: prod.splits verified.splits)
  show ?thesis
  proof (cases "Volumes ?s2 (pub_VolumeId req)")
    case (Some info')
    then show ?thesis
      using adm0 twelve
      by (cases "DevicePath (heap ?s2 ! info') = []")
         (simp_all add: run verifyPublish_Published verifyPublish_second_UnderProgress)
  next
    case None
    have locked: "?again = verifyPublish_locked env nodeID (pub_VolumeId req) (pub_TargetPath req) v ?s2"
      by (rule verifyPublish_absent [OF None])
    have "case NodePublishVolume env nodeID req s of
            (resp, s', evs) \<Rightarrow> count_list evs ?nap = 1"
      unfolding run locked
      using adm0 None
      by (auto simp: verifyPublish_locked_def alloc_def publish_mount_def Let_def
               split: option.splits sum.splits)
    with None twelve show ?thesis
      by (auto split: prod.splits)
  qed
qed

theorem C4_duplicate_publish_during_mount_witness:
  "NodePublishVolume env_ok ''node-1'' publish_1 mounting_1
     = (Inl (Internal, ''Mount under progress''), mounting_1,
        [E_FetchPVDetails ''pvc-1'', E_getVolStatus ''pvc-1'', E_Dial ''10.0.0.7:3260'',
         E_Sleep 12])
   \<and> NodePublishVolume (env_ok\<lparr>others_during_sleep := set_DevicePath 0 ''/dev/sdb''\<rparr>)
        ''node-1'' publish_1 mounting_1
     = (Inr (), published_1,
        [E_FetchPVDetails ''pvc-1'', E_getVolStatus ''pvc-1'', E_Dial ''10.0.0.7:3260'',
         E_Sleep 12])"
proof -
  let ?env = "env_ok\<lparr>others_during_sleep := set_DevicePath 0 ''/dev/sdb''\<rparr>"
  have m: "Volumes mounting_1 (pub_VolumeId publish_1) = Some 0"
      "DevicePath (heap mounting_1 ! 0) = []"
    by (simp_all add: mounting_1_def publish_1_def vol_1_def)
  have s1: "others_during_sleep env_ok mounting_1 = mounting_1"
    by (simp add: env_ok_def)
  have s2: "set_DevicePath 0 ''/dev/sdb'' mounting_1 = published_1"
    by (simp add: mounting_1_def published_1_def set_DevicePath_def)
  have a2: "admitted ?env publish_1 vol_1"
    using admitted_1 by (simp add: admitted_def details_def env_ok_def)
  have e2: "admission_events ?env publish_1 vol_1 = admission_events env_ok publish_1 vol_1"
    by (simp add: admission_events_def env_ok_def)
  have p: "Volumes published_1 (pub_VolumeId publish_1) = Some 0"
      "DevicePath (heap published_1 ! 0) \<noteq> []"
    by (simp_all add: published_1_def publish_1_def)
  from C4_duplicate_publish_during_mount [OF admitted_1 m, of "''node-1''"]
  have "NodePublishVolume env_ok ''node-1'' publish_1 mounting_1
     = (Inl (Internal, ''Mount under progress''), mounting_1,
        [E_FetchPVDetails ''pvc-1'', E_getVolStatus ''pvc-1'', E_Dial ''10.0.0.7:3260'',
         E_Sleep 12])"
    using m by (auto simp: s1 admission_events_1 split: prod.splits)
  moreover
  from C4_duplicate_publish_during_mount [OF a2 m, of "''node-1''"]
  have "NodePublishVolume ?env ''node-1'' publish_1 mounting_1
     = (Inr (), published_1,
        [E_FetchPVDetails ''pvc-1'', E_getVolStatus ''pvc-1'', E_Dial ''10.0.0.7:3260'',
         E_Sleep 12])"
    using p by (auto simp: s2 e2 admission_events_1 split: prod.splits)
  ultimately show ?thesis by simp
qed

text \<open>
  Claim C7. For a request with volume id and target path whose record is in the registry,
  \<^verbatim>\<open>NodeUnpublishVolume\<close> removes the record first and calls unmount+logout after that.
  When unmount+logout fails it returns \<^verbatim>\<open>Internal\<close> with that error; the removal is not
  undone (the handler's only write to the shared state is the removal) and the ownership
  record is not deleted. The ownership record is deleted only after unmount+logout has
  succeeded.
\<close>

theorem C7_unpublish_removes_first:
  assumes "unpub_VolumeId req \<noteq> []" and "unpub_TargetPath req \<noteq> []"
    and "Volumes s (unpub_VolumeId req) = Some vol"
  shows "case NodeUnpublishVolume env req s of
           (resp, s', evs) \<Rightarrow>
             s' = others_during_teardown env (Volumes_delete (unpub_VolumeId req) s)
             \<and> Volumes (Volumes_delete (unpub_VolumeId req) s) (unpub_VolumeId req) = None
             \<and> (case x_UnmountAndDetachDisk env of
                  Some err \<Rightarrow>
                    resp = Inl (Internal, err)
                    \<and> evs = [E_VolumesDelete (unpub_VolumeId req),
                              E_UnmountAndDetachDisk vol (unpub_TargetPath req)]
                | None \<Rightarrow>
                    resp = (case x_DeleteCSIVolumeCR env of
                              Some err \<Rightarrow> Inl (Internal, err) | None \<Rightarrow> Inr ())
                    \<and> evs = [E_VolumesDelete (unpub_VolumeId req),
                              E_UnmountAndDetachDisk vol (unpub_TargetPath req),
                              E_DeleteCSIVolumeCR vol])"
  using assms
  by (simp add: NodeUnpublishVolume_def Let_def Volumes_delete_def split: option.splits)

theorem C7_unpublish_removes_first_witness:
  "NodeUnpublishVolume (uenv_ok\<lparr>x_UnmountAndDetachDisk := Some ''target busy''\<rparr>)
        unpublish_1 published_1
     = (Inl (Internal, ''target busy''), Volumes_delete ''pvc-1'' published_1,
        [E_VolumesDelete ''pvc-1'', E_UnmountAndDetachDisk 0 ''/mnt/pvc-1''])
   \<and> Volumes (Volumes_delete ''pvc-1'' published_1) ''pvc-1'' = None
   \<and> NodeUnpublishVolume uenv_ok unpublish_1 published_1
     = (Inr (), Volumes_delete ''pvc-1'' published_1,
        [E_VolumesDelete ''pvc-1'', E_UnmountAndDetachDisk 0 ''/mnt/pvc-1'',
         E_DeleteCSIVolumeCR 0])"
proof -
  have h: "unpub_VolumeId unpublish_1 \<noteq> []" "unpub_TargetPath unpublish_1 \<noteq> []"
      "Volumes published_1 (unpub_VolumeId unpublish_1) = Some 0"
    by (simp_all add: unpublish_1_def published_1_def)
  from C7_unpublish_removes_first
         [OF h, of "uenv_ok\<lparr>x_UnmountAndDetachDisk := Some ''target busy''\<rparr>"]
       C7_unpublish_removes_first [OF h, of uenv_ok]
  show ?thesis
    by (auto simp: uenv_ok_def unpublish_1_def split: prod.splits)
qed

text \<open>
  The handler on the path that inserts the record: the request is admitted, the registry has
  no record for the volume, and handover and claim of the ownership record succeed.
\<close>

lemma NodePublishVolume_inserting:
  assumes "admitted env req v" and "Volumes s (pub_VolumeId req) = None"
    and "x_DeleteOldCSIVolumeCR env = None" and "x_CreateCSIVolumeCR env = None"
  shows "NodePublishVolume env nodeID req s =
     (case publish_mount env (length (heap s))
             (Volumes_put (pub_VolumeId req) (length (heap s)) (snd (alloc v s))) of
        (resp, s2, e4) \<Rightarrow>
          (resp, s2,
           admission_events env req v
             @ [E_DeleteOldCSIVolumeCR v nodeID,
                E_CreateCSIVolumeCR v nodeID (pub_TargetPath req),
                E_VolumesPut (pub_VolumeId req) (length (heap s))] @ e4))"
  by (simp add: NodePublishVolume_admitted [OF assms(1)] verifyPublish_absent [OF assms(2)]
        verifyPublish_locked_def assms alloc_def)

text \<open>
  Claim C8. When attach+mount is called in \<^verbatim>\<open>NodePublishVolume\<close> and fails (the request is
  admitted, the call has inserted its record at its first or at its second look, chmod has
  succeeded), the handler returns \<^verbatim>\<open>Internal\<close> with that error. The record it inserted has
  an empty device path and is in the registry when the lock is released. The steps of the
  handler from the insert on are: handover and creation of the ownership record, insert,
  chmod, attach+mount; so it neither removes the record nor deletes the ownership record
  afterwards, and its only write to the shared state is the insert.
\<close>

theorem C8_attach_failure_keeps_entry:
  assumes "admitted env req v"
    and "verifyPublish env nodeID (pub_VolumeId req) (pub_TargetPath req) v False s
           = (Inserted vol, s1, e3)"
    and "x_ChmodMountPath env = None" and "x_AttachAndMountDisk env = Inl err"
  shows "NodePublishVolume env nodeID req s
           = (Inl (Internal, err), others_during_mount env s1,
              admission_events env req v @ e3
                @ [E_ChmodMountPath (pub_TargetPath req), E_AttachAndMountDisk vol])
         \<and> Volumes s1 (pub_VolumeId req) = Some vol
         \<and> DevicePath (heap s1 ! vol) = []
         \<and> (\<exists>s0 slept.
               (slept = [] \<and> s0 = s
                \<or> slept = [E_Sleep (VolumeWaitRetryCount * VolumeWaitTimeout)]
                   \<and> s0 = others_during_sleep env s)
               \<and> Volumes s0 (pub_VolumeId req) = None
               \<and> s1 = Volumes_put (pub_VolumeId req) vol (snd (alloc v s0))
               \<and> e3 = slept @ [E_DeleteOldCSIVolumeCR v nodeID,
                                E_CreateCSIVolumeCR v nodeID (pub_TargetPath req),
                                E_VolumesPut (pub_VolumeId req) vol])"
proof -
  from verifyPublish_Inserted [OF assms(2)]
  obtain s0 slept where i:
      "slept = [] \<and> s0 = s
       \<or> slept = [E_Sleep (VolumeWaitRetryCount * VolumeWaitTimeout)]
          \<and> s0 = others_during_sleep env s"
      "Volumes s0 (pub_VolumeId req) = None" "vol = length (heap s0)"
      "s1 = Volumes_put (pub_VolumeId req) vol (snd (alloc v s0))"
      "e3 = slept @ [E_DeleteOldCSIVolumeCR v nodeID,
                     E_CreateCSIVolumeCR v nodeID (pub_TargetPath req),
                     E_VolumesPut (pub_VolumeId req) vol]"
    by blast
  from i(3,4) admitted_fresh [OF assms(1)]
  have entry: "Volumes s1 (pub_VolumeId req) = Some vol" "DevicePath (heap s1 ! vol) = []"
      "MountPath (heap s1 ! vol) = pub_TargetPath req"
    by (simp_all add: Volumes_put_def alloc_def)
  have "NodePublishVolume env nodeID req s
           = (Inl (Internal, err), others_during_mount env s1,
              admission_events env req v @ e3
                @ [E_ChmodMountPath (pub_TargetPath req), E_AttachAndMountDisk vol])"
    using assms(3,4) entry(3)
    by (simp add: NodePublishVolume_admitted [OF assms(1)] assms(2) publish_mount_def Let_def)
  with entry i show ?thesis by blast
qed

theorem C8_attach_failure_keeps_entry_witness:
  "NodePublishVolume (env_ok\<lparr>x_AttachAndMountDisk := Inl ''iscsiadm: login failed''\<rparr>)
        ''node-1'' publish_1 init_state
     = (Inl (Internal, ''iscsiadm: login failed''), mounting_1,
        [E_FetchPVDetails ''pvc-1'', E_getVolStatus ''pvc-1'', E_Dial ''10.0.0.7:3260'',
         E_DeleteOldCSIVolumeCR vol_1 ''node-1'',
         E_CreateCSIVolumeCR vol_1 ''node-1'' ''/mnt/pvc-1'',
         E_VolumesPut ''pvc-1'' 0, E_ChmodMountPath ''/mnt/pvc-1'', E_AttachAndMountDisk 0])
   \<and> Volumes mounting_1 ''pvc-1'' = Some 0 \<and> DevicePath (heap mounting_1 ! 0) = []
   \<and> NodePublishVolume
        (env_ok\<lparr>x_AttachAndMountDisk := Inl ''iscsiadm: login failed'',
                 others_during_sleep := Volumes_delete ''pvc-1''\<rparr>)
        ''node-1'' publish_1 mounting_1
     = (Inl (Internal, ''iscsiadm: login failed''),
        \<lparr>heap = [vol_1, vol_1], Volumes = [''pvc-1'' \<mapsto> 1], ReqMountList = Map.empty\<rparr>,
        [E_FetchPVDetails ''pvc-1'', E_getVolStatus ''pvc-1'', E_Dial ''10.0.0.7:3260'',
         E_Sleep 12, E_DeleteOldCSIVolumeCR vol_1 ''node-1'',
         E_CreateCSIVolumeCR vol_1 ''node-1'' ''/mnt/pvc-1'',
         E_VolumesPut ''pvc-1'' 1, E_ChmodMountPath ''/mnt/pvc-1'', E_AttachAndMountDisk 1])"
proof -
  let ?env1 = "env_ok\<lparr>x_AttachAndMountDisk := Inl ''iscsiadm: login failed''\<rparr>"
  let ?env2 = "env_ok\<lparr>x_AttachAndMountDisk := Inl ''iscsiadm: login failed'',
                      others_during_sleep := Volumes_delete ''pvc-1''\<rparr>"
  let ?s2 = "\<lparr>heap = [vol_1, vol_1], Volumes = [''pvc-1'' \<mapsto> 1], ReqMountList = Map.empty\<rparr>"
  let ?claim = "[E_DeleteOldCSIVolumeCR vol_1 ''node-1'',
                 E_CreateCSIVolumeCR vol_1 ''node-1'' ''/mnt/pvc-1'']"
  have a: "admitted ?env1 publish_1 vol_1" "admitted ?env2 publish_1 vol_1"
    using admitted_1 by (simp_all add: admitted_def details_def env_ok_def)
  have e: "admission_events ?env1 publish_1 vol_1
             = [E_FetchPVDetails ''pvc-1'', E_getVolStatus ''pvc-1'', E_Dial ''10.0.0.7:3260'']"
      "admission_events ?env2 publish_1 vol_1
             = [E_FetchPVDetails ''pvc-1'', E_getVolStatus ''pvc-1'', E_Dial ''10.0.0.7:3260'']"
    by (simp_all add: admission_events_def env_ok_def publish_1_def scripted_def Ready_at_once
          Reachable_at_once vol_1_def)
  have p: "pub_VolumeId publish_1 = ''pvc-1''" "pub_TargetPath publish_1 = ''/mnt/pvc-1''"
    by (simp_all add: publish_1_def)
  have first: "verifyPublish ?env1 ''node-1'' ''pvc-1'' ''/mnt/pvc-1'' vol_1 False init_state
                 = (Inserted 0, mounting_1, ?claim @ [E_VolumesPut ''pvc-1'' 0])"
    by (subst verifyPublish_absent)
       (simp_all add: init_state_def verifyPublish_locked_def env_ok_def alloc_def
          Volumes_put_def mounting_1_def)
  let ?gone = "\<lparr>heap = [vol_1], Volumes = Map.empty, ReqMountList = Map.empty\<rparr>"
  have s0: "others_during_sleep ?env2 mounting_1 = ?gone"
    by (simp add: Volumes_delete_def mounting_1_def)
  have again: "verifyPublish ?env2 ''node-1'' ''pvc-1'' ''/mnt/pvc-1'' vol_1 True ?gone
                 = (Inserted 1, ?s2, ?claim @ [E_VolumesPut ''pvc-1'' 1])"
    by (subst verifyPublish_absent)
       (simp_all add: verifyPublish_locked_def env_ok_def alloc_def Volumes_put_def)
  have second: "verifyPublish ?env2 ''node-1'' ''pvc-1'' ''/mnt/pvc-1'' vol_1 False mounting_1
                 = (Inserted 1, ?s2, E_Sleep 12 # ?claim @ [E_VolumesPut ''pvc-1'' 1])"
    apply (subst verifyPublish_first_UnderProgress [where info = 0])
      apply (simp add: mounting_1_def)
     apply (simp add: mounting_1_def vol_1_def)
    apply (simp only: s0 again)
    apply (simp add: VolumeWaitRetryCount_def VolumeWaitTimeout_def)
    done
  have h: "x_ChmodMountPath ?env1 = None" "x_AttachAndMountDisk ?env1 = Inl ''iscsiadm: login failed''"
      "x_ChmodMountPath ?env2 = None" "x_AttachAndMountDisk ?env2 = Inl ''iscsiadm: login failed''"
    by (simp_all add: env_ok_def)
  have o: "others_during_mount env_ok = id"
    by (simp add: env_ok_def)
  have first': "verifyPublish ?env1 ''node-1'' (pub_VolumeId publish_1) (pub_TargetPath publish_1)
                  vol_1 False init_state
                 = (Inserted 0, mounting_1, ?claim @ [E_VolumesPut ''pvc-1'' 0])"
    using first by (simp only: p)
  have second': "verifyPublish ?env2 ''node-1'' (pub_VolumeId publish_1) (pub_TargetPath publish_1)
                  vol_1 False mounting_1
                 = (Inserted 1, ?s2, E_Sleep 12 # ?claim @ [E_VolumesPut ''pvc-1'' 1])"
    using second by (simp only: p)
  from C8_attach_failure_keeps_entry [OF a(1) first' h(1,2)]
       C8_attach_failure_keeps_entry [OF a(2) second' h(3,4)]
  show ?thesis
    by (simp add: e o p)
qed

text \<open>
  Claim C9, as amended; no other thread runs during the call, so that the state at the
  return can be compared with the state at the start. An error return of
  \<^verbatim>\<open>NodePublishVolume\<close> leaves the shared state as it was at the start, unless the call had
  got as far as inserting its record (request admitted, no record before, handover and claim
  of the ownership record succeeded): then the error comes from chmod or attach+mount and
  the inserted record stays. An error return of \<^verbatim>\<open>NodeUnpublishVolume\<close> leaves the shared
  state as it was when an argument is missing; otherwise the record was found, the error
  comes from unmount+logout or from deleting the ownership record, and the record stays
  removed.
\<close>

theorem C9_registry_on_error:
  "(others_during_sleep env = id \<and> others_during_mount env = id
      \<and> NodePublishVolume env nodeID req s = (Inl e, s', evs)
    \<longrightarrow> (if (\<exists>v. admitted env req v) \<and> Volumes s (pub_VolumeId req) = None
             \<and> x_DeleteOldCSIVolumeCR env = None \<and> x_CreateCSIVolumeCR env = None
          then (\<exists>v. admitted env req v
                  \<and> s' = Volumes_put (pub_VolumeId req) (length (heap s)) (snd (alloc v s)))
               \<and> Volumes s' = (Volumes s)(pub_VolumeId req \<mapsto> length (heap s))
               \<and> (x_ChmodMountPath env \<noteq> None \<or> (\<exists>err. x_AttachAndMountDisk env = Inl err))
          else s' = s))
   \<and> (others_during_teardown uenv = id
      \<and> NodeUnpublishVolume uenv ureq s = (Inl e, s', evs)
    \<longrightarrow> (if unpub_VolumeId ureq \<noteq> [] \<and> unpub_TargetPath ureq \<noteq> []
          then Volumes s (unpub_VolumeId ureq) \<noteq> None
               \<and> s' = Volumes_delete (unpub_VolumeId ureq) s
               \<and> (x_UnmountAndDetachDisk uenv \<noteq> None \<or> x_DeleteCSIVolumeCR uenv \<noteq> None)
          else s' = s))"
proof (intro conjI impI)
  assume a: "others_during_sleep env = id \<and> others_during_mount env = id
      \<and> NodePublishVolume env nodeID req s = (Inl e, s', evs)"
  show "if (\<exists>v. admitted env req v) \<and> Volumes s (pub_VolumeId req) = None
             \<and> x_DeleteOldCSIVolumeCR env = None \<and> x_CreateCSIVolumeCR env = None
          then (\<exists>v. admitted env req v
                  \<and> s' = Volumes_put (pub_VolumeId req) (length (heap s)) (snd (alloc v s)))
               \<and> Volumes s' = (Volumes s)(pub_VolumeId req \<mapsto> length (heap s))
               \<and> (x_ChmodMountPath env \<noteq> None \<or> (\<exists>err. x_AttachAndMountDisk env = Inl err))
          else s' = s"
  proof (cases "\<exists>v. admitted env req v")
    case False
    with NodePublishVolume_not_admitted [OF False, of nodeID s] a show ?thesis by auto
  next
    case True
    then obtain v where v: "admitted env req v" ..
    note run = NodePublishVolume_admitted [OF v, of nodeID s]
    show ?thesis
    proof (cases "Volumes s (pub_VolumeId req)")
      case (Some info)
      show ?thesis
      proof (cases "DevicePath (heap s ! info) = []")
        case False
        with a Some show ?thesis by (simp add: run verifyPublish_Published)
      next
        case True
        from a have "others_during_sleep env s = s" by simp
        with a Some True show ?thesis
          by (simp add: run verifyPublish_first_UnderProgress verifyPublish_second_UnderProgress)
      qed
    next
      case None
      show ?thesis
      proof (cases "x_DeleteOldCSIVolumeCR env = None \<and> x_CreateCSIVolumeCR env = None")
        case False
        with a None show ?thesis
          by (auto simp: run verifyPublish_absent verifyPublish_locked_def split: option.splits)
      next
        case True
        with a None v show ?thesis
          by (auto simp: NodePublishVolume_inserting [OF v None] publish_mount_def Let_def
                Volumes_put_def alloc_def split: option.splits sum.splits)
      qed
    qed
  qed
next
  assume "others_during_teardown uenv = id
      \<and> NodeUnpublishVolume uenv ureq s = (Inl e, s', evs)"
  then show "if unpub_VolumeId ureq \<noteq> [] \<and> unpub_TargetPath ureq \<noteq> []
          then Volumes s (unpub_VolumeId ureq) \<noteq> None
               \<and> s' = Volumes_delete (unpub_VolumeId ureq) s
               \<and> (x_UnmountAndDetachDisk uenv \<noteq> None \<or> x_DeleteCSIVolumeCR uenv \<noteq> None)
          else s' = s"
    by (auto simp: NodeUnpublishVolume_def Let_def split: if_splits option.splits)
qed

theorem C9_registry_on_error_witness:
  "NodePublishVolume (env_ok\<lparr>x_CreateCSIVolumeCR := Some ''csivolumes: already exists''\<rparr>)
        ''node-1'' publish_1 init_state
     = (Inl (Internal, ''csivolumes: already exists''), init_state,
        [E_FetchPVDetails ''pvc-1'', E_getVolStatus ''pvc-1'', E_Dial ''10.0.0.7:3260'',
         E_DeleteOldCSIVolumeCR vol_1 ''node-1'',
         E_CreateCSIVolumeCR vol_1 ''node-1'' ''/mnt/pvc-1''])
   \<and> NodeUnpublishVolume uenv_ok \<lparr>unpub_VolumeId = ''pvc-1'', unpub_TargetPath = []\<rparr> published_1
     = (Inl (InvalidArgument, ''Target path missing in request''), published_1, [])"
proof -
  let ?env = "env_ok\<lparr>x_CreateCSIVolumeCR := Some ''csivolumes: already exists''\<rparr>"
  let ?ureq = "\<lparr>unpub_VolumeId = ''pvc-1'', unpub_TargetPath = []\<rparr>"
  let ?evs = "[E_FetchPVDetails ''pvc-1'', E_getVolStatus ''pvc-1'', E_Dial ''10.0.0.7:3260'',
         E_DeleteOldCSIVolumeCR vol_1 ''node-1'',
         E_CreateCSIVolumeCR vol_1 ''node-1'' ''/mnt/pvc-1'']"
  obtain resp s' evs where r: "NodePublishVolume ?env ''node-1'' publish_1 init_state = (resp, s', evs)"
    by (cases "NodePublishVolume ?env ''node-1'' publish_1 init_state")
  have a: "admitted ?env publish_1 vol_1"
    using admitted_1 by (simp add: admitted_def details_def env_ok_def)
  have e: "admission_events ?env publish_1 vol_1
             = [E_FetchPVDetails ''pvc-1'', E_getVolStatus ''pvc-1'', E_Dial ''10.0.0.7:3260'']"
    by (simp add: admission_events_def env_ok_def publish_1_def scripted_def Ready_at_once
          Reachable_at_once vol_1_def)
  have n: "Volumes init_state (pub_VolumeId publish_1) = None"
    by (simp add: init_state_def)
  have "fst (NodePublishVolume ?env ''node-1'' publish_1 init_state)
          = Inl (Internal, ''csivolumes: already exists'')
        \<and> snd (snd (NodePublishVolume ?env ''node-1'' publish_1 init_state)) = ?evs"
    by (subst NodePublishVolume_admitted [OF a], subst verifyPublish_absent [OF n],
        simp only: e)+
       (simp add: verifyPublish_locked_def env_ok_def publish_1_def init_state_def)
  with r have r': "NodePublishVolume ?env ''node-1'' publish_1 init_state
                     = (Inl (Internal, ''csivolumes: already exists''), s', ?evs)"
    by simp
  obtain uresp us uevs where u: "NodeUnpublishVolume uenv_ok ?ureq published_1 = (uresp, us, uevs)"
    by (cases "NodeUnpublishVolume uenv_ok ?ureq published_1")
  have "uresp = Inl (InvalidArgument, ''Target path missing in request'') \<and> uevs = []"
    using u by (auto simp: NodeUnpublishVolume_def)
  with u have u': "NodeUnpublishVolume uenv_ok ?ureq published_1
                     = (Inl (InvalidArgument, ''Target path missing in request''), us, [])"
    by simp
  have q: "others_during_sleep ?env = id \<and> others_during_mount ?env = id"
      "others_during_teardown uenv_ok = id"
      "x_CreateCSIVolumeCR ?env \<noteq> None"
    by (simp_all add: env_ok_def uenv_ok_def)
  from C9_registry_on_error
         [of ?env "''node-1''" publish_1 init_state "(Internal, ''csivolumes: already exists'')"
             s' ?evs uenv_ok ?ureq, THEN conjunct1] r' q
  have "s' = init_state" by simp
  moreover
  from C9_registry_on_error
         [of ?env "''node-1''" publish_1 published_1
             "(InvalidArgument, ''Target path missing in request'')" us "[]" uenv_ok ?ureq,
          THEN conjunct2] u' q
  have "us = published_1" by simp
  ultimately show ?thesis using r' u' by simp
qed

text \<open>
  Claim C9 as stated fails. A publish call whose chmod fails returns \<^verbatim>\<open>Internal\<close> and
  leaves in the registry the record it inserted; an unpublish call whose deletion of the
  ownership record fails returns \<^verbatim>\<open>Internal\<close> and leaves the registry without the record
  it removed.
\<close>

theorem C9_registry_counterexample:
  "fst (NodePublishVolume (env_ok\<lparr>x_ChmodMountPath := Some ''chmod: no such file''\<rparr>)
          ''node-1'' publish_1 init_state) = Inl (Internal, ''chmod: no such file'')
   \<and> Volumes init_state ''pvc-1'' = None
   \<and> Volumes (fst (snd (NodePublishVolume
                (env_ok\<lparr>x_ChmodMountPath := Some ''chmod: no such file''\<rparr>)
                ''node-1'' publish_1 init_state))) ''pvc-1'' = Some 0
   \<and> fst (NodeUnpublishVolume (uenv_ok\<lparr>x_DeleteCSIVolumeCR := Some ''apiserver: timeout''\<rparr>)
          unpublish_1 published_1) = Inl (Internal, ''apiserver: timeout'')
   \<and> Volumes published_1 ''pvc-1'' = Some 0
   \<and> Volumes (fst (snd (NodeUnpublishVolume
                (uenv_ok\<lparr>x_DeleteCSIVolumeCR := Some ''apiserver: timeout''\<rparr>)
                unpublish_1 published_1))) ''pvc-1'' = None"
proof -
  let ?env = "env_ok\<lparr>x_ChmodMountPath := Some ''chmod: no such file''\<rparr>"
  have a: "admitted ?env publish_1 vol_1"
    using admitted_1 by (simp add: admitted_def details_def env_ok_def)
  have n: "Volumes init_state (pub_VolumeId publish_1) = None"
    by (simp add: init_state_def)
  have h: "x_DeleteOldCSIVolumeCR ?env = None" "x_CreateCSIVolumeCR ?env = None"
    by (simp_all add: env_ok_def)
  have p: "NodePublishVolume ?env ''node-1'' publish_1 init_state
             = (Inl (Internal, ''chmod: no such file''),
                Volumes_put ''pvc-1'' 0 (snd (alloc vol_1 init_state)),
                admission_events ?env publish_1 vol_1
                  @ [E_DeleteOldCSIVolumeCR vol_1 ''node-1'',
                     E_CreateCSIVolumeCR vol_1 ''node-1'' ''/mnt/pvc-1'',
                     E_VolumesPut ''pvc-1'' 0, E_ChmodMountPath ''/mnt/pvc-1''])"
    by (subst NodePublishVolume_inserting [OF a n h])
       (simp add: publish_mount_def env_ok_def init_state_def publish_1_def Let_def
          Volumes_put_def alloc_def vol_1_def)
  show ?thesis
    by (simp add: p)
       (simp add: NodeUnpublishVolume_def Let_def uenv_ok_def unpublish_1_def published_1_def
          init_state_def Volumes_put_def Volumes_delete_def alloc_def)
qed

section \<open>One tick of the supervisor\<close>

lemma MonitorMounts_inspect_empty:
  "DevicePath (heap s ! vol) = [] \<Longrightarrow> MonitorMounts_inspect list vol s = (Continue, [])"
  by (simp add: MonitorMounts_inspect_def MonitorMounts_inspect_read_def)

text \<open>Whatever the read of \<^verbatim>\<open>ReqMountList\<close> yields, the rest of the loop body is the same.\<close>

lemma MonitorMounts_inspect_read_Remount:
  assumes "MonitorMounts_inspect_read list vol s isRemounting = (Remount exists mountPoint, evs)"
  shows "DevicePath (heap s ! vol) \<noteq> []" and "\<not> isRemounting"
    and "exists = (mountPoint \<noteq> None)" and "evs = [E_ListContains (MountPath (heap s ! vol))]"
    and "MonitorMounts_reads list vol s"
  using assms
  by (cases "listContains (MountPath (heap s ! vol)) list";
      auto simp: MonitorMounts_inspect_read_def MonitorMounts_reads_def split: if_splits)+

lemma MonitorMounts_inspect_Remount:
  assumes "MonitorMounts_inspect list vol s = (Remount exists mountPoint, evs)"
  shows "DevicePath (heap s ! vol) \<noteq> []" and "ReqMountList s (Name (heap s ! vol)) = None"
    and "exists = (mountPoint \<noteq> None)" and "evs = [E_ListContains (MountPath (heap s ! vol))]"
  using MonitorMounts_inspect_read_Remount [OF assms [unfolded MonitorMounts_inspect_def]]
  by simp_all

lemma MonitorMounts_inspect_events:
  assumes "MonitorMounts_inspect list vol s = (r, evs)" and "e \<in> set evs"
  shows "DevicePath (heap s ! vol) \<noteq> [] \<and> e = E_ListContains (MountPath (heap s ! vol))"
  using assms
  by (cases "listContains (MountPath (heap s ! vol)) list";
      auto simp: MonitorMounts_inspect_def MonitorMounts_inspect_read_def split: if_splits)

lemma MonitorMounts_visit_frame:
  assumes "MonitorMounts_visit list vol s = (s', spawned, evs)"
  shows "heap s' = heap s" and "Volumes s' = Volumes s"
    and "\<forall>g \<in> set spawned. r_vol g = vol \<and> DevicePath (heap s ! vol) \<noteq> []"
    and "\<forall>p. E_ListContains p \<in> set evs
           \<longrightarrow> DevicePath (heap s ! vol) \<noteq> [] \<and> p = MountPath (heap s ! vol)"
proof -
  obtain r e0 where i: "MonitorMounts_inspect list vol s = (r, e0)"
    by (cases "MonitorMounts_inspect list vol s")
  show "heap s' = heap s" and "Volumes s' = Volumes s"
    using assms i
    by (cases r; auto simp: MonitorMounts_visit_def ReqMountList_put_def)+
  show "\<forall>g \<in> set spawned. r_vol g = vol \<and> DevicePath (heap s ! vol) \<noteq> []"
    using assms i MonitorMounts_inspect_Remount(1) [of list vol s]
    by (cases r; auto simp: MonitorMounts_visit_def)
  show "\<forall>p. E_ListContains p \<in> set evs
           \<longrightarrow> DevicePath (heap s ! vol) \<noteq> [] \<and> p = MountPath (heap s ! vol)"
    using assms i MonitorMounts_inspect_events [OF i]
    by (cases r; fastforce simp: MonitorMounts_visit_def)
qed

lemma MonitorMounts_range_frame:
  "MonitorMounts_range list keys s = (s', spawned, evs) \<Longrightarrow>
     heap s' = heap s \<and> Volumes s' = Volumes s
     \<and> (\<forall>g \<in> set spawned. \<exists>k \<in> set keys.
           Volumes s k = Some (r_vol g) \<and> DevicePath (heap s ! r_vol g) \<noteq> [])
     \<and> (\<forall>p. E_ListContains p \<in> set evs
           \<longrightarrow> (\<exists>k \<in> set keys. \<exists>vol. Volumes s k = Some vol
                    \<and> DevicePath (heap s ! vol) \<noteq> [] \<and> p = MountPath (heap s ! vol)))"
proof (induction keys arbitrary: s s' spawned evs)
  case Nil
  then show ?case by simp
next
  case (Cons k keys)
  show ?case
  proof (cases "Volumes s k")
    case None
    with Cons.prems have "MonitorMounts_range list keys s = (s', spawned, evs)" by simp
    from Cons.IH [OF this] show ?thesis by auto
  next
    case (Some vol)
    obtain s1 sp1 e1 where v: "MonitorMounts_visit list vol s = (s1, sp1, e1)"
      by (cases "MonitorMounts_visit list vol s")
    obtain s2 sp2 e2 where r: "MonitorMounts_range list keys s1 = (s2, sp2, e2)"
      by (cases "MonitorMounts_range list keys s1")
    from Cons.prems Some v r have eq: "s' = s2" "spawned = sp1 @ sp2" "evs = e1 @ e2"
      by simp_all
    note f = MonitorMounts_visit_frame [OF v]
    note ih = Cons.IH [OF r]
    have 1: "heap s' = heap s \<and> Volumes s' = Volumes s"
      using f(1,2) ih eq by simp
    have 2: "\<forall>g \<in> set spawned. \<exists>k' \<in> set (k # keys).
           Volumes s k' = Some (r_vol g) \<and> DevicePath (heap s ! r_vol g) \<noteq> []"
    proof
      fix g assume "g \<in> set spawned"
      then consider "g \<in> set sp1" | "g \<in> set sp2" using eq by auto
      then show "\<exists>k' \<in> set (k # keys).
           Volumes s k' = Some (r_vol g) \<and> DevicePath (heap s ! r_vol g) \<noteq> []"
      proof cases
        case 1
        with f(3) Some show ?thesis by auto
      next
        case 2
        with ih f(1,2) show ?thesis by auto
      qed
    qed
    have 3: "\<forall>p. E_ListContains p \<in> set evs
           \<longrightarrow> (\<exists>k' \<in> set (k # keys). \<exists>vol. Volumes s k' = Some vol
                    \<and> DevicePath (heap s ! vol) \<noteq> [] \<and> p = MountPath (heap s ! vol))"
    proof (intro allI impI)
      fix p assume "E_ListContains p \<in> set evs"
      then consider "E_ListContains p \<in> set e1" | "E_ListContains p \<in> set e2" using eq by auto
      then show "\<exists>k' \<in> set (k # keys). \<exists>vol. Volumes s k' = Some vol
                    \<and> DevicePath (heap s ! vol) \<noteq> [] \<and> p = MountPath (heap s ! vol)"
      proof cases
        case 1
        with f(4) Some show ?thesis by auto
      next
        case 2
        with ih f(1,2) show ?thesis by auto
      qed
    qed
    from 1 2 3 show ?thesis by blast
  qed
qed

section \<open>Steps of the transition system\<close>

lemma fire_Verify_cases:
  assumes "fire (A_Verify env nodeID req v) c = Some c'"
  shows "c' = c
       \<or> (Volumes (shared c) (pub_VolumeId req) = None \<and> DevicePath v = []
          \<and> c' = c\<lparr>shared := (shared c)\<lparr>heap := heap (shared c) @ [v],
                        Volumes := (Volumes (shared c))
                                     (pub_VolumeId req \<mapsto> length (heap (shared c)))\<rparr>,
                    publishing := (pub_VolumeId req, length (heap (shared c))) # publishing c\<rparr>)"
proof -
  from assms have a: "admitted env req v" by (simp split: if_splits)
  obtain r s' evs where l: "verifyPublish_locked env nodeID (pub_VolumeId req)
                              (pub_TargetPath req) v (shared c) = (r, s', evs)"
    by (cases "verifyPublish_locked env nodeID (pub_VolumeId req) (pub_TargetPath req) v (shared c)")
  from verifyPublish_locked_cases [OF l] show ?thesis
  proof
    assume "s' = shared c \<and> (\<forall>vol. r \<noteq> Inserted vol)"
    with assms l have "c' = c" by (cases r) (auto split: if_splits)
    then show ?thesis ..
  next
    assume "r = Inserted (length (heap (shared c))) \<and> Volumes (shared c) (pub_VolumeId req) = None
          \<and> s' = (shared c)\<lparr>heap := heap (shared c) @ [v],
                   Volumes := (Volumes (shared c))(pub_VolumeId req \<mapsto> length (heap (shared c)))\<rparr>"
    with assms l admitted_fresh(1) [OF a] show ?thesis by (auto split: if_splits)
  qed
qed

lemma fire_Inspect_cases:
  assumes "fire A_Inspect c = Some c'"
  shows "(\<exists>pc. c' = c\<lparr>monitor := pc\<rparr> \<and> (pc = Idle \<or> (\<exists>keys list. pc = Ranging keys list)))
       \<or> (\<exists>k keys list vol exists mountPoint evs.
            monitor c = Ranging (k # keys) list \<and> Volumes (shared c) k = Some vol
            \<and> MonitorMounts_inspect list vol (shared c) = (Remount exists mountPoint, evs)
            \<and> c' = c\<lparr>monitor :=
                      Marking \<lparr>r_exists = exists, r_vol = vol, r_mountPoint = mountPoint,
                               r_desiredMountOpt = MountPath (heap (shared c) ! vol)\<rparr>
                        keys list\<rparr>)"
proof (cases "monitor c")
  case (Ranging ks list)
  show ?thesis
  proof (cases ks)
    case Nil
    with assms Ranging show ?thesis by (auto split: if_splits)
  next
    case (Cons k keys)
    show ?thesis
    proof (cases "Volumes (shared c) k")
      case None
      with assms Ranging Cons show ?thesis by (auto split: if_splits)
    next
      case (Some vol)
      obtain r evs where i: "MonitorMounts_inspect list vol (shared c) = (r, evs)"
        by (cases "MonitorMounts_inspect list vol (shared c)")
      with assms Ranging Cons Some show ?thesis by (cases r) (auto split: if_splits)
    qed
  qed
qed (use assms in \<open>auto split: if_splits\<close>)

text \<open>
  A read of \<^verbatim>\<open>ReqMountList\<close> that races with a \<^verbatim>\<open>delete\<close> stops the process, or lets the
  loop go on to the next volume, or to the mark for this one.
\<close>

lemma fire_InspectRace_cases:
  assumes "fire (A_InspectRace raced) c = Some c'"
  shows "c' = c\<lparr>aborted := True\<rparr>
       \<or> (\<exists>keys list. c' = c\<lparr>monitor := Ranging keys list\<rparr>)
       \<or> (\<exists>k keys list vol exists mountPoint evs isRemounting.
            monitor c = Ranging (k # keys) list \<and> Volumes (shared c) k = Some vol
            \<and> MonitorMounts_inspect_read list vol (shared c) isRemounting
                = (Remount exists mountPoint, evs)
            \<and> c' = c\<lparr>monitor :=
                      Marking \<lparr>r_exists = exists, r_vol = vol, r_mountPoint = mountPoint,
                               r_desiredMountOpt = MountPath (heap (shared c) ! vol)\<rparr>
                        keys list\<rparr>)"
proof (cases "monitor c")
  case (Ranging ks list)
  show ?thesis
  proof (cases ks)
    case Nil
    with assms Ranging show ?thesis by (auto split: if_splits)
  next
    case (Cons k keys)
    show ?thesis
    proof (cases "Volumes (shared c) k")
      case None
      with assms Ranging Cons show ?thesis by (auto split: if_splits)
    next
      case (Some vol)
      show ?thesis
      proof (cases raced)
        case None
        with assms Ranging Cons Some show ?thesis by (auto split: if_splits)
      next
        case (Some isRemounting)
        obtain r evs where i: "MonitorMounts_inspect_read list vol (shared c) isRemounting = (r, evs)"
          by (cases "MonitorMounts_inspect_read list vol (shared c) isRemounting")
        show ?thesis
        proof (cases r)
          case Continue
          with i assms Ranging Cons \<open>Volumes (shared c) k = Some vol\<close> Some show ?thesis
            by (auto split: if_splits)
        next
          case (Remount exists mountPoint)
          with i assms Ranging Cons \<open>Volumes (shared c) k = Some vol\<close> Some
          have "c' = c\<lparr>monitor :=
                      Marking \<lparr>r_exists = exists, r_vol = vol, r_mountPoint = mountPoint,
                               r_desiredMountOpt = MountPath (heap (shared c) ! vol)\<rparr>
                        keys list\<rparr>"
            by (simp split: if_splits)
          with i Remount Ranging Cons \<open>Volumes (shared c) k = Some vol\<close> show ?thesis
            by blast
        qed
      qed
    qed
  qed
qed (use assms in \<open>auto split: if_splits\<close>)

text \<open>The shared state of the successor configuration, action by action.\<close>

lemma fire_shared:
  assumes "fire a c = Some c'"
  shows "shared c' = shared c
       \<or> (\<exists>env nodeID req v. a = A_Verify env nodeID req v
            \<and> Volumes (shared c) (pub_VolumeId req) = None \<and> DevicePath v = []
            \<and> shared c' = (shared c)\<lparr>heap := heap (shared c) @ [v],
                  Volumes := (Volumes (shared c))
                               (pub_VolumeId req \<mapsto> length (heap (shared c)))\<rparr>)
       \<or> (\<exists>volumeID vol devicePath. a = A_Finalize volumeID vol devicePath
            \<and> (volumeID, vol) \<in> set (publishing c)
            \<and> shared c' = set_DevicePath vol devicePath (shared c))
       \<or> (\<exists>volumeID. a = A_Unpublish volumeID
            \<and> shared c' = Volumes_delete volumeID (shared c))
       \<or> (\<exists>g keys list. a = A_Mark \<and> monitor c = Marking g keys list
            \<and> shared c' = ReqMountList_put (task_name c g) (shared c))
       \<or> (\<exists>g. a = A_RemountReturn g \<and> g \<in> set (repairing c)
            \<and> shared c' = ReqMountList_delete (task_name c g) (shared c))"
proof (cases a)
  case (A_Verify env nodeID req v)
  with fire_Verify_cases [of env nodeID req v c c'] assms show ?thesis by auto
next
  case A_Inspect
  with fire_Inspect_cases [of c c'] assms show ?thesis by auto
next
  case (A_InspectRace raced)
  with fire_InspectRace_cases [of raced c c'] assms show ?thesis by auto
next
  case A_Mark
  with assms show ?thesis by (cases "monitor c") (auto simp: task_name_def split: if_splits)
next
  case A_Spawn
  with assms show ?thesis by (cases "monitor c") (auto split: if_splits)
qed (use assms in \<open>auto simp: task_name_def split: if_splits option.splits\<close>)

text \<open>
  Objects are never removed from the store; the name of an object never changes; the only
  write to an object is that of \<open>A_Finalize\<close>, to an object whose device path is empty.
\<close>

lemma fire_heap:
  assumes "publishers_ok c" and "fire a c = Some c'" and "p < length (heap (shared c))"
  shows "p < length (heap (shared c'))"
    and "Name (heap (shared c') ! p) = Name (heap (shared c) ! p)"
    and "DevicePath (heap (shared c) ! p) \<noteq> [] \<Longrightarrow> heap (shared c') ! p = heap (shared c) ! p"
    and "(\<And>volumeID vol devicePath. a \<noteq> A_Finalize volumeID vol devicePath)
           \<Longrightarrow> heap (shared c') ! p = heap (shared c) ! p"
proof -
  have fin: "vol < length (heap (shared c)) \<and> DevicePath (heap (shared c) ! vol) = []"
    if "(volumeID, vol) \<in> set (publishing c)" for volumeID vol
    using assms(1) that by (auto simp: publishers_ok_def)
  from fire_shared [OF assms(2)] assms(3)
  show "p < length (heap (shared c'))"
    by (auto simp: set_DevicePath_def Volumes_delete_def ReqMountList_put_def
          ReqMountList_delete_def)
  from fire_shared [OF assms(2)] assms(3) fin
  show "Name (heap (shared c') ! p) = Name (heap (shared c) ! p)"
    by (auto simp: set_DevicePath_def Volumes_delete_def ReqMountList_put_def
          ReqMountList_delete_def nth_append nth_list_update)
  from fire_shared [OF assms(2)] assms(3) fin
  show "heap (shared c') ! p = heap (shared c) ! p" if "DevicePath (heap (shared c) ! p) \<noteq> []"
    using that
    by (auto simp: set_DevicePath_def Volumes_delete_def ReqMountList_put_def
          ReqMountList_delete_def nth_append nth_list_update)
  from fire_shared [OF assms(2)] assms(3)
  show "heap (shared c') ! p = heap (shared c) ! p"
    if "\<And>volumeID vol devicePath. a \<noteq> A_Finalize volumeID vol devicePath"
    using that
    by (auto simp: Volumes_delete_def ReqMountList_put_def ReqMountList_delete_def nth_append)
qed

section \<open>The invariants hold in every reachable configuration\<close>

lemma in_remove1D: "y \<in> set (remove1 x xs) \<Longrightarrow> y \<in> set xs"
  using set_remove1_subset [of x xs] by fast

lemma distinct_map_remove1:
  "distinct (map f xs) \<Longrightarrow> distinct (map f (remove1 x xs))"
  by (induction xs) (auto dest: in_remove1D)

lemma distinct_map_remove1_neq:
  "distinct (map f xs) \<Longrightarrow> x \<in> set xs \<Longrightarrow> y \<in> set (remove1 x xs) \<Longrightarrow> f y \<noteq> f x"
proof (induction xs)
  case Nil
  then show ?case by simp
next
  case (Cons a xs)
  show ?case
  proof (cases "x = a")
    case True
    with Cons.prems show ?thesis by (auto simp: image_iff)
  next
    case False
    with Cons.prems have x: "x \<in> set xs" by simp
    from False Cons.prems consider "y = a" | "y \<in> set (remove1 x xs)" by auto
    then show ?thesis
    proof cases
      case 1
      with Cons.prems x show ?thesis by (auto simp: image_iff)
    next
      case 2
      with Cons.prems x Cons.IH show ?thesis by simp
    qed
  qed
qed

lemma publishers_ok_init: "publishers_ok init_system"
  by (simp add: publishers_ok_def init_system_def init_state_def wf_state_def)

lemma publishers_ok_step:
  assumes "publishers_ok c" and "fire a c = Some c'"
  shows "publishers_ok c'"
proof (cases a)
  case (A_Verify env nodeID req v)
  from fire_Verify_cases [OF assms(2) [unfolded A_Verify]] show ?thesis
  proof
    assume "c' = c" with assms(1) show ?thesis by simp
  next
    assume "Volumes (shared c) (pub_VolumeId req) = None \<and> DevicePath v = []
          \<and> c' = c\<lparr>shared := (shared c)\<lparr>heap := heap (shared c) @ [v],
                        Volumes := (Volumes (shared c))
                                     (pub_VolumeId req \<mapsto> length (heap (shared c)))\<rparr>,
                    publishing := (pub_VolumeId req, length (heap (shared c))) # publishing c\<rparr>"
    then have c': "shared c' = (shared c)\<lparr>heap := heap (shared c) @ [v],
                        Volumes := (Volumes (shared c))
                                     (pub_VolumeId req \<mapsto> length (heap (shared c)))\<rparr>"
        "publishing c' = (pub_VolumeId req, length (heap (shared c))) # publishing c"
        and v: "DevicePath v = []"
      by simp_all
    from assms(1) have old: "vol < length (heap (shared c))
                             \<and> DevicePath (heap (shared c) ! vol) = []"
      if "(volumeID, vol) \<in> set (publishing c)" for volumeID vol
      using that by (auto simp: publishers_ok_def)
    have 1: "wf_state (shared c')"
      using assms(1) by (auto simp: c' publishers_ok_def wf_state_def less_Suc_eq)
    have 2: "\<forall>(volumeID, vol) \<in> set (publishing c').
               vol < length (heap (shared c')) \<and> DevicePath (heap (shared c') ! vol) = []"
      using old v by (auto simp: c' nth_append less_Suc_eq)
    have "length (heap (shared c)) \<notin> snd ` set (publishing c)"
      using old by force
    with assms(1) have 3: "distinct (map snd (publishing c'))"
      by (simp add: c' publishers_ok_def)
    from 1 2 3 show ?thesis unfolding publishers_ok_def by blast
  qed
next
  case (A_MountFailed volumeID vol)
  with assms(2) have c': "shared c' = shared c"
      "publishing c' = remove1 (volumeID, vol) (publishing c)"
    by (auto split: if_splits)
  from assms(1) show ?thesis
    unfolding publishers_ok_def c'
    by (auto simp: distinct_map_remove1 dest: in_remove1D)
next
  case (A_Finalize volumeID vol devicePath)
  with assms(2) have in_p: "(volumeID, vol) \<in> set (publishing c)"
      and c': "c' = c\<lparr>shared := set_DevicePath vol devicePath (shared c),
                     publishing := remove1 (volumeID, vol) (publishing c)\<rparr>"
    by (auto split: if_splits)
  from assms(1) have d: "distinct (map snd (publishing c))" by (simp add: publishers_ok_def)
  have other: "vol' \<noteq> vol \<and> (volumeID', vol') \<in> set (publishing c)"
    if "(volumeID', vol') \<in> set (remove1 (volumeID, vol) (publishing c))" for volumeID' vol'
    using distinct_map_remove1_neq [OF d in_p that] that
    by (auto dest: in_remove1D)
  from assms(1) in_p have v: "vol < length (heap (shared c))"
    by (auto simp: publishers_ok_def)
  have 1: "wf_state (shared c')"
    using assms(1) by (simp add: c' publishers_ok_def wf_state_def set_DevicePath_def)
  have 2: "\<forall>(volumeID', vol') \<in> set (publishing c').
             vol' < length (heap (shared c')) \<and> DevicePath (heap (shared c') ! vol') = []"
  proof (clarify)
    fix volumeID' vol' assume "(volumeID', vol') \<in> set (publishing c')"
    then have "(volumeID', vol') \<in> set (remove1 (volumeID, vol) (publishing c))"
      by (simp add: c')
    from other [OF this] have o: "vol' \<noteq> vol" "(volumeID', vol') \<in> set (publishing c)"
      by blast+
    with assms(1) have "vol' < length (heap (shared c))"
        "DevicePath (heap (shared c) ! vol') = []"
      by (auto simp: publishers_ok_def)
    with o(1) show "vol' < length (heap (shared c'))
                    \<and> DevicePath (heap (shared c') ! vol') = []"
      by (simp add: c' set_DevicePath_def)
  qed
  have 3: "distinct (map snd (publishing c'))"
    using d by (simp add: c' distinct_map_remove1)
  from 1 2 3 show ?thesis unfolding publishers_ok_def by blast
next
  case (A_Unpublish volumeID)
  with assms show ?thesis
    by (auto simp: publishers_ok_def wf_state_def Volumes_delete_def
             split: if_splits option.splits)
next
  case (A_Tick keys list)
  with assms show ?thesis by (auto simp: publishers_ok_def split: if_splits)
next
  case A_Inspect
  from fire_Inspect_cases [OF assms(2) [unfolded A_Inspect]] assms(1) show ?thesis
    by (auto simp: publishers_ok_def)
next
  case (A_InspectRace raced)
  from fire_InspectRace_cases [OF assms(2) [unfolded A_InspectRace]] assms(1) show ?thesis
    by (auto simp: publishers_ok_def)
next
  case A_Mark
  with assms show ?thesis
    by (cases "monitor c")
       (auto simp: publishers_ok_def wf_state_def ReqMountList_put_def split: if_splits)
next
  case A_Spawn
  with assms show ?thesis
    by (cases "monitor c") (auto simp: publishers_ok_def split: if_splits)
next
  case (A_RemountLock g)
  with assms show ?thesis
    by (auto simp: publishers_ok_def split: if_splits)
next
  case (A_RemountReturn g)
  with assms show ?thesis
    by (auto simp: publishers_ok_def wf_state_def ReqMountList_delete_def split: if_splits)
qed

lemma fire_task:
  assumes "publishers_ok c" and "fire a c = Some c'" and "task_ok c g"
  shows "task_ok c' g" and "task_name c' g = task_name c g"
  using fire_heap(1-3) [OF assms(1,2), of "r_vol g"] assms(3)
  by (auto simp: task_ok_def task_name_def)

lemma task_heap:
  assumes "heap (shared c') = heap (shared c)"
  shows "task_name c' = task_name c" and "task_ok c' = task_ok c"
  using assms by (simp_all add: task_name_def task_ok_def fun_eq_iff)

text \<open>
  The arguments of the goroutines, in every configuration, whatever the reads of
  \<^verbatim>\<open>ReqMountList\<close> yield.
\<close>

lemma tasks_ok_init: "tasks_ok init_system"
  by (simp add: tasks_ok_def init_system_def)

lemma tasks_ok_frame:
  assumes "tasks_ok c"
    and "set (repairing c') \<subseteq> set (repairing c)"
    and "monitor c' = monitor c \<or> monitor c' = Idle \<or> (\<exists>keys list. monitor c' = Ranging keys list)"
    and t: "\<And>g. task_ok c g \<Longrightarrow> task_ok c' g"
  shows "tasks_ok c'"
proof -
  have 1: "\<forall>g \<in> set (repairing c'). task_ok c' g"
    using assms(1,2) t by (auto simp: tasks_ok_def)
  have 2: "case monitor c' of
          Marking g keys list \<Rightarrow> task_ok c' g
        | Spawning g keys list \<Rightarrow> task_ok c' g
        | _ \<Rightarrow> True"
  proof (cases "monitor c'")
    case (Marking g keys list)
    with assms(3) have "monitor c = Marking g keys list" by auto
    with assms(1) have "task_ok c g" by (simp add: tasks_ok_def)
    with t [of g] Marking show ?thesis by simp
  next
    case (Spawning g keys list)
    with assms(3) have "monitor c = Spawning g keys list" by auto
    with assms(1) have "task_ok c g" by (simp add: tasks_ok_def)
    with t [of g] Spawning show ?thesis by simp
  qed simp_all
  from 1 2 show ?thesis unfolding tasks_ok_def by blast
qed

lemma tasks_ok_step:
  assumes P: "publishers_ok c" and T: "tasks_ok c" and F: "fire a c = Some c'"
  shows "tasks_ok c'"
proof -
  have t: "task_ok c' g" if "task_ok c g" for g
    using fire_task(1) [OF P F that] .
  have marking: "tasks_ok c'"
    if k: "Volumes (shared c) k = Some vol"
      and i: "MonitorMounts_inspect_read list vol (shared c) isRemounting
                = (Remount exists mountPoint, evs)"
      and c': "c' = c\<lparr>monitor :=
                      Marking \<lparr>r_exists = exists, r_vol = vol, r_mountPoint = mountPoint,
                               r_desiredMountOpt = MountPath (heap (shared c) ! vol)\<rparr>
                        keys list\<rparr>"
    for k vol list isRemounting exists mountPoint evs keys
  proof -
    let ?g = "\<lparr>r_exists = exists, r_vol = vol, r_mountPoint = mountPoint,
               r_desiredMountOpt = MountPath (heap (shared c) ! vol)\<rparr>"
    from P k have "vol < length (heap (shared c))"
      by (auto simp: publishers_ok_def wf_state_def)
    with MonitorMounts_inspect_read_Remount(1,3) [OF i]
    have g: "task_ok c ?g" by (simp add: task_ok_def)
    have "task_ok c' = task_ok c"
      by (rule task_heap, simp add: c')
    with g T show ?thesis
      by (simp add: tasks_ok_def) (simp add: c')
  qed
  show ?thesis
  proof (cases a)
    case (A_Verify env nodeID req v)
    from F have "monitor c = Idle" unfolding A_Verify by (simp split: if_splits)
    with fire_Verify_cases [OF F [unfolded A_Verify]]
    show ?thesis by (intro tasks_ok_frame [OF T _ _ t]) auto
  next
    case (A_MountFailed volumeID vol)
    with F show ?thesis
      by (intro tasks_ok_frame [OF T _ _ t]) (auto split: if_splits)
  next
    case (A_Finalize volumeID vol devicePath)
    with F show ?thesis
      by (intro tasks_ok_frame [OF T _ _ t]) (auto split: if_splits)
  next
    case (A_Unpublish volumeID)
    with F show ?thesis
      by (intro tasks_ok_frame [OF T _ _ t]) (auto split: if_splits option.splits)
  next
    case (A_Tick keys list)
    with F show ?thesis
      by (intro tasks_ok_frame [OF T _ _ t]) (auto split: if_splits)
  next
    case A_Inspect
    from fire_Inspect_cases [OF F [unfolded A_Inspect]]
    consider (plain) pc where "c' = c\<lparr>monitor := pc\<rparr>"
          "pc = Idle \<or> (\<exists>keys list. pc = Ranging keys list)"
      | (mark) k keys list vol exists mountPoint evs
        where "Volumes (shared c) k = Some vol"
          "MonitorMounts_inspect list vol (shared c) = (Remount exists mountPoint, evs)"
          "c' = c\<lparr>monitor :=
                      Marking \<lparr>r_exists = exists, r_vol = vol, r_mountPoint = mountPoint,
                               r_desiredMountOpt = MountPath (heap (shared c) ! vol)\<rparr>
                        keys list\<rparr>"
      by blast
    then show ?thesis
    proof cases
      case plain
      then show ?thesis
        by (intro tasks_ok_frame [OF T _ _ t]) auto
    next
      case mark
      from marking [OF mark(1) mark(2) [unfolded MonitorMounts_inspect_def] mark(3)]
      show ?thesis .
    qed
  next
    case (A_InspectRace raced)
    from fire_InspectRace_cases [OF F [unfolded A_InspectRace]]
    consider (stopped) "c' = c\<lparr>aborted := True\<rparr>"
      | (plain) keys list where "c' = c\<lparr>monitor := Ranging keys list\<rparr>"
      | (mark) k keys list vol exists mountPoint evs isRemounting
        where "Volumes (shared c) k = Some vol"
          "MonitorMounts_inspect_read list vol (shared c) isRemounting
             = (Remount exists mountPoint, evs)"
          "c' = c\<lparr>monitor :=
                      Marking \<lparr>r_exists = exists, r_vol = vol, r_mountPoint = mountPoint,
                               r_desiredMountOpt = MountPath (heap (shared c) ! vol)\<rparr>
                        keys list\<rparr>"
      by blast
    then show ?thesis
    proof cases
      case stopped
      then show ?thesis
        by (intro tasks_ok_frame [OF T _ _ t]) auto
    next
      case plain
      then show ?thesis
        by (intro tasks_ok_frame [OF T _ _ t]) auto
    next
      case mark
      from marking [OF mark] show ?thesis .
    qed
  next
    case A_Mark
    with F obtain g keys list where m: "monitor c = Marking g keys list"
        and c': "c' = c\<lparr>shared := ReqMountList_put (task_name c g) (shared c),
                       monitor := Spawning g keys list\<rparr>"
      by (cases "monitor c") (auto simp: task_name_def split: if_splits)
    have "task_ok c' = task_ok c"
      by (rule task_heap, simp add: c' ReqMountList_put_def)
    with T m show ?thesis
      by (simp add: tasks_ok_def) (simp add: c')
  next
    case A_Spawn
    with F obtain g keys list where m: "monitor c = Spawning g keys list"
        and c': "c' = c\<lparr>repairing := g # repairing c, monitor := Ranging keys list\<rparr>"
      by (cases "monitor c") (auto split: if_splits)
    have "task_ok c' = task_ok c"
      by (rule task_heap, simp add: c')
    with T m show ?thesis
      by (simp add: tasks_ok_def) (simp add: c')
  next
    case (A_RemountLock g)
    with F show ?thesis
      by (intro tasks_ok_frame [OF T _ _ t]) (auto split: if_splits)
  next
    case (A_RemountReturn g)
    with F show ?thesis
      by (intro tasks_ok_frame [OF T _ _ t]) (auto split: if_splits dest: in_remove1D)
  qed
qed

text \<open>
  The names of the goroutines, in the configurations reached without a read of
  \<^verbatim>\<open>ReqMountList\<close> that races with a \<^verbatim>\<open>delete\<close>.
\<close>

lemma repairs_ok_frame:
  assumes "repairs_ok c"
    and "repairing c' = repairing c"
    and "ReqMountList (shared c') = ReqMountList (shared c)"
    and "monitor c' = monitor c \<or> monitor c' = Idle \<or> (\<exists>keys list. monitor c' = Ranging keys list)"
    and t: "\<And>g. task_ok c g \<Longrightarrow> task_ok c' g \<and> task_name c' g = task_name c g"
  shows "repairs_ok c'"
proof -
  from assms(1) have ok: "\<forall>g \<in> set (repairing c). task_ok c g"
    by (simp add: repairs_ok_def)
  with t have names: "\<forall>g \<in> set (repairing c). task_name c' g = task_name c g" by blast
  then have m: "map (task_name c') (repairing c) = map (task_name c) (repairing c)"
    by simp
  from names have i: "task_name c' ` set (repairing c) = task_name c ` set (repairing c)"
    by force
  have 1: "\<forall>g \<in> set (repairing c').
             task_ok c' g \<and> ReqMountList (shared c') (task_name c' g) \<noteq> None"
    using assms(1-3) t by (auto simp: repairs_ok_def)
  have 2: "distinct (map (task_name c') (repairing c'))"
    unfolding assms(2) m using assms(1) by (simp add: repairs_ok_def)
  have 3: "case monitor c' of
          Marking g keys list \<Rightarrow>
            task_ok c' g \<and> task_name c' g \<notin> task_name c' ` set (repairing c')
        | Spawning g keys list \<Rightarrow>
            task_ok c' g \<and> task_name c' g \<notin> task_name c' ` set (repairing c')
            \<and> ReqMountList (shared c') (task_name c' g) \<noteq> None
        | _ \<Rightarrow> True"
  proof (cases "monitor c'")
    case (Marking g keys list)
    with assms(4) have "monitor c = Marking g keys list" by auto
    with assms(1) have "task_ok c g" "task_name c g \<notin> task_name c ` set (repairing c)"
      by (simp_all add: repairs_ok_def)
    with t [of g] i Marking assms(2) show ?thesis by simp
  next
    case (Spawning g keys list)
    with assms(4) have "monitor c = Spawning g keys list" by auto
    with assms(1) have "task_ok c g" "task_name c g \<notin> task_name c ` set (repairing c)"
        "ReqMountList (shared c) (task_name c g) \<noteq> None"
      by (simp_all add: repairs_ok_def)
    with t [of g] i Spawning assms(2,3) show ?thesis by simp
  qed simp_all
  from 1 2 3 show ?thesis unfolding repairs_ok_def by blast
qed

lemma repairs_ok_init: "repairs_ok init_system"
  by (simp add: repairs_ok_def init_system_def)

lemma repairs_ok_step:
  assumes P: "publishers_ok c" and R: "repairs_ok c" and F: "fire a c = Some c'"
    and E: "\<And>raced. a \<noteq> A_InspectRace raced"
  shows "repairs_ok c'"
proof -
  have t: "task_ok c' g \<and> task_name c' g = task_name c g" if "task_ok c g" for g
    using fire_task [OF P F that] by simp
  from R have ok: "\<forall>g \<in> set (repairing c). task_ok c g"
    by (simp add: repairs_ok_def)
  with t have names: "\<forall>g \<in> set (repairing c). task_name c' g = task_name c g" by blast
  show ?thesis
  proof (cases a)
    case (A_Verify env nodeID req v)
    from F have "monitor c = Idle" unfolding A_Verify by (simp split: if_splits)
    with fire_Verify_cases [OF F [unfolded A_Verify]]
    show ?thesis by (intro repairs_ok_frame [OF R _ _ _ t]) auto
  next
    case (A_MountFailed volumeID vol)
    with F show ?thesis
      by (intro repairs_ok_frame [OF R _ _ _ t]) (auto split: if_splits)
  next
    case (A_Finalize volumeID vol devicePath)
    with F show ?thesis
      by (intro repairs_ok_frame [OF R _ _ _ t]) (auto simp: set_DevicePath_def split: if_splits)
  next
    case (A_Unpublish volumeID)
    with F show ?thesis
      by (intro repairs_ok_frame [OF R _ _ _ t])
         (auto simp: Volumes_delete_def split: if_splits option.splits)
  next
    case (A_Tick keys list)
    with F show ?thesis
      by (intro repairs_ok_frame [OF R _ _ _ t]) (auto split: if_splits)
  next
    case A_Inspect
    from fire_Inspect_cases [OF F [unfolded A_Inspect]]
    consider (plain) pc where "c' = c\<lparr>monitor := pc\<rparr>"
          "pc = Idle \<or> (\<exists>keys list. pc = Ranging keys list)"
      | (mark) k keys list vol exists mountPoint evs
        where "monitor c = Ranging (k # keys) list" "Volumes (shared c) k = Some vol"
          "MonitorMounts_inspect list vol (shared c) = (Remount exists mountPoint, evs)"
          "c' = c\<lparr>monitor :=
                      Marking \<lparr>r_exists = exists, r_vol = vol, r_mountPoint = mountPoint,
                               r_desiredMountOpt = MountPath (heap (shared c) ! vol)\<rparr>
                        keys list\<rparr>"
      by blast
    then show ?thesis
    proof cases
      case plain
      then show ?thesis
        by (intro repairs_ok_frame [OF R _ _ _ t]) auto
    next
      case mark
      note k = mark(2) and i = mark(3) and c' = mark(4)
      let ?g = "\<lparr>r_exists = exists, r_vol = vol, r_mountPoint = mountPoint,
                 r_desiredMountOpt = MountPath (heap (shared c) ! vol)\<rparr>"
      from P k have "vol < length (heap (shared c))"
        by (auto simp: publishers_ok_def wf_state_def)
      with MonitorMounts_inspect_Remount [OF i]
      have g: "task_ok c ?g" and n: "ReqMountList (shared c) (task_name c ?g) = None"
        by (simp_all add: task_ok_def task_name_def)
      from n R have "task_name c ?g \<notin> task_name c ` set (repairing c)"
        by (auto simp: repairs_ok_def)
      moreover have "task_name c' = task_name c" "task_ok c' = task_ok c"
        by (rule task_heap, simp add: c')+
      ultimately show ?thesis
        using g R by (simp add: repairs_ok_def) (auto simp: c')
    qed
  next
    case (A_InspectRace raced)
    with E show ?thesis by blast
  next
    case (A_RemountLock g)
    with F show ?thesis
      by (intro repairs_ok_frame [OF R _ _ _ t]) (auto split: if_splits)
  next
    case A_Mark
    with F obtain g keys list where m: "monitor c = Marking g keys list"
        and c': "c' = c\<lparr>shared := ReqMountList_put (task_name c g) (shared c),
                       monitor := Spawning g keys list\<rparr>"
      by (cases "monitor c") (auto simp: task_name_def split: if_splits)
    from R m have "task_ok c g" "task_name c g \<notin> task_name c ` set (repairing c)"
      by (simp_all add: repairs_ok_def)
    moreover have "task_name c' = task_name c" "task_ok c' = task_ok c"
      by (rule task_heap, simp add: c' ReqMountList_put_def)+
    ultimately show ?thesis
      using R by (simp add: repairs_ok_def) (auto simp: c' ReqMountList_put_def)
  next
    case A_Spawn
    with F obtain g keys list where m: "monitor c = Spawning g keys list"
        and c': "c' = c\<lparr>repairing := g # repairing c, monitor := Ranging keys list\<rparr>"
      by (cases "monitor c") (auto split: if_splits)
    from R m have "task_ok c g" "task_name c g \<notin> task_name c ` set (repairing c)"
        "ReqMountList (shared c) (task_name c g) \<noteq> None"
      by (simp_all add: repairs_ok_def)
    moreover have "task_name c' = task_name c" "task_ok c' = task_ok c"
      by (rule task_heap, simp add: c')+
    ultimately show ?thesis
      using R by (simp add: repairs_ok_def) (auto simp: c')
  next
    case (A_RemountReturn g)
    with F have g: "g \<in> set (repairing c)"
        and c': "c' = c\<lparr>shared := ReqMountList_delete (task_name c g) (shared c),
                       repairing := remove1 g (repairing c), deleting := None\<rparr>"
      by (auto simp: task_name_def split: if_splits)
    from R have d: "distinct (map (task_name c) (repairing c))"
      by (simp add: repairs_ok_def)
    have tn: "task_name c' = task_name c" and tk: "task_ok c' = task_ok c"
      by (rule task_heap, simp add: c' ReqMountList_delete_def)+
    have 1: "\<forall>g' \<in> set (repairing c').
               task_ok c' g' \<and> ReqMountList (shared c') (task_name c' g') \<noteq> None"
    proof
      fix g' assume "g' \<in> set (repairing c')"
      then have r: "g' \<in> set (remove1 g (repairing c))" by (simp add: c')
      from distinct_map_remove1_neq [OF d g r] in_remove1D [OF r] R
      show "task_ok c' g' \<and> ReqMountList (shared c') (task_name c' g') \<noteq> None"
        unfolding tn tk by (auto simp: c' repairs_ok_def ReqMountList_delete_def)
    qed
    have 2: "distinct (map (task_name c') (repairing c'))"
      unfolding tn using d by (simp add: c' distinct_map_remove1)
    have sub: "task_name c ` set (repairing c') \<subseteq> task_name c ` set (repairing c)"
      by (auto simp: c' dest: in_remove1D)
    have 3: "case monitor c' of
          Marking g keys list \<Rightarrow>
            task_ok c' g \<and> task_name c' g \<notin> task_name c' ` set (repairing c')
        | Spawning g keys list \<Rightarrow>
            task_ok c' g \<and> task_name c' g \<notin> task_name c' ` set (repairing c')
            \<and> ReqMountList (shared c') (task_name c' g) \<noteq> None
        | _ \<Rightarrow> True"
    proof (cases "monitor c")
      case (Marking g0 keys list)
      with R have "task_ok c g0" "task_name c g0 \<notin> task_name c ` set (repairing c)"
        by (simp_all add: repairs_ok_def)
      with sub have "task_ok c g0 \<and> task_name c g0 \<notin> task_name c ` set (repairing c')"
        by blast
      with Marking show ?thesis unfolding tn tk by (simp add: c')
    next
      case (Spawning g0 keys list)
      with R have h: "task_ok c g0" "task_name c g0 \<notin> task_name c ` set (repairing c)"
          "ReqMountList (shared c) (task_name c g0) \<noteq> None"
        by (simp_all add: repairs_ok_def)
      with g have "task_name c g0 \<noteq> task_name c g" by blast
      with h have "ReqMountList (shared c') (task_name c g0) \<noteq> None"
        by (simp add: c' ReqMountList_delete_def)
      moreover from h sub
      have "task_ok c g0 \<and> task_name c g0 \<notin> task_name c ` set (repairing c')"
        by blast
      ultimately show ?thesis using Spawning unfolding tn tk by (simp add: c')
    qed (simp_all add: c')
    from 1 2 3 show ?thesis unfolding repairs_ok_def by blast
  qed
qed

lemma reachable_invariants:
  "reachable c \<Longrightarrow> publishers_ok c \<and> tasks_ok c"
proof (induction rule: reachable.induct)
  case init
  show ?case by (simp add: publishers_ok_init tasks_ok_init)
next
  case (step c a c')
  then show ?case using publishers_ok_step tasks_ok_step by blast
qed

lemma race_free_invariants:
  "race_free c \<Longrightarrow> reachable c \<and> repairs_ok c"
proof (induction rule: race_free.induct)
  case init
  show ?case by (simp add: reachable.init repairs_ok_init)
next
  case (step c a c')
  from step.IH step.hyps(2) have "reachable c'" by (blast intro: reachable.step)
  moreover from step.IH have "publishers_ok c" by (simp add: reachable_invariants)
  from repairs_ok_step [OF this _ step.hyps(2) step.hyps(3)] step.IH
  have "repairs_ok c'" by blast
  ultimately show ?case ..
qed

lemma run_reachable: "reachable c \<Longrightarrow> run as c = Some c' \<Longrightarrow> reachable c'"
proof (induction as arbitrary: c)
  case Nil
  then show ?case by simp
next
  case (Cons a as)
  then show ?case by (auto split: option.splits intro: reachable.step)
qed

section \<open>Claims about the supervisor and about interleavings\<close>

lemma run_interleaving_1: "run interleaving_1 init_system = Some repairing_1"
proof -
  have v: "verifyPublish_locked env_ok ''node-1'' ''pvc-1'' ''/mnt/pvc-1'' vol_1 init_state
             = (Inserted 0, mounting_1,
                [E_DeleteOldCSIVolumeCR vol_1 ''node-1'',
                 E_CreateCSIVolumeCR vol_1 ''node-1'' ''/mnt/pvc-1'', E_VolumesPut ''pvc-1'' 0])"
    by (simp add: verifyPublish_locked_def init_state_def env_ok_def alloc_def Volumes_put_def
          mounting_1_def)
  have f: "set_DevicePath 0 ''/dev/sdb'' mounting_1 = published_1"
    by (simp add: set_DevicePath_def mounting_1_def published_1_def)
  have i: "MonitorMounts_inspect [] 0 published_1 = (Remount False None, [E_ListContains ''/mnt/pvc-1''])"
    by (simp add: MonitorMounts_inspect_def MonitorMounts_inspect_read_def published_1_def vol_1_def)
  have p: "pub_VolumeId publish_1 = ''pvc-1''" "pub_TargetPath publish_1 = ''/mnt/pvc-1''"
    by (simp_all add: publish_1_def)
  have h: "heap published_1 ! 0 = vol_1\<lparr>DevicePath := ''/dev/sdb''\<rparr>"
      "Volumes published_1 ''pvc-1'' = Some 0"
    by (simp_all add: published_1_def)
  show ?thesis
    unfolding interleaving_1_def
    by (simp add: init_system_def admitted_1 p v f i h)
       (simp add: repairing_1_def remount_1_def ReqMountList_put_def vol_1_def published_1_def)
qed

lemma reachable_repairing_1: "reachable repairing_1"
  using run_reachable [OF reachable.init run_interleaving_1] .

lemma fire_RemountLock_1: "fire (A_RemountLock remount_1) repairing_1 = Some deleting_1"
  by (simp add: repairing_1_def deleting_1_def)

lemma reachable_deleting_1: "reachable deleting_1"
  using reachable.step [OF reachable_repairing_1 fire_RemountLock_1] .

lemma distinct_map_filter_le1:
  "distinct (map f xs) \<Longrightarrow> length (filter (\<lambda>x. f x = y) xs) \<le> 1"
  by (induction xs) (auto simp: image_iff filter_empty_conv)

text \<open>
  Claim C2. In one tick of the supervisor, whatever the mount table and the order of the
  range, every goroutine spawned is for a volume of the registry whose device path is not
  empty, and every lookup in the mount table is for the mount path of such a volume. The
  loop body for a volume whose device path is empty does nothing at all: no lookup in the
  mount table, no mark, no spawn. In every configuration that the threads can reach
  together, the goroutines in flight and the one the monitor is about to mark or spawn are
  for objects whose device path is not empty.
\<close>

theorem C2_supervisor_safety:
  "(case MonitorMounts_tick list keys s of
      (s', spawned, evs) \<Rightarrow>
        (\<forall>g \<in> set spawned. \<exists>k \<in> set keys.
            Volumes s k = Some (r_vol g) \<and> DevicePath (heap s ! r_vol g) \<noteq> [])
        \<and> (\<forall>p. E_ListContains p \<in> set evs
              \<longrightarrow> (\<exists>k \<in> set keys. \<exists>vol. Volumes s k = Some vol
                       \<and> DevicePath (heap s ! vol) \<noteq> [] \<and> p = MountPath (heap s ! vol))))
   \<and> (DevicePath (heap s ! vol) = [] \<longrightarrow> MonitorMounts_visit list vol s = (s, [], []))
   \<and> (reachable c
        \<longrightarrow> (\<forall>g \<in> set (repairing c). DevicePath (heap (shared c) ! r_vol g) \<noteq> [])
            \<and> (\<forall>g ks l. monitor c = Marking g ks l \<or> monitor c = Spawning g ks l
                  \<longrightarrow> DevicePath (heap (shared c) ! r_vol g) \<noteq> []))"
proof (intro conjI impI)
  obtain s' spawned evs where t: "MonitorMounts_range list keys s = (s', spawned, evs)"
    by (cases "MonitorMounts_range list keys s")
  from MonitorMounts_range_frame [OF t]
  show "case MonitorMounts_tick list keys s of
      (s', spawned, evs) \<Rightarrow>
        (\<forall>g \<in> set spawned. \<exists>k \<in> set keys.
            Volumes s k = Some (r_vol g) \<and> DevicePath (heap s ! r_vol g) \<noteq> [])
        \<and> (\<forall>p. E_ListContains p \<in> set evs
              \<longrightarrow> (\<exists>k \<in> set keys. \<exists>vol. Volumes s k = Some vol
                       \<and> DevicePath (heap s ! vol) \<noteq> [] \<and> p = MountPath (heap s ! vol)))"
    by (simp add: MonitorMounts_tick_def t)
next
  assume "DevicePath (heap s ! vol) = []"
  then show "MonitorMounts_visit list vol s = (s, [], [])"
    by (simp add: MonitorMounts_visit_def MonitorMounts_inspect_empty)
next
  assume "reachable c"
  then have r: "tasks_ok c" by (simp add: reachable_invariants)
  then show "\<forall>g \<in> set (repairing c). DevicePath (heap (shared c) ! r_vol g) \<noteq> []"
    by (simp add: tasks_ok_def task_ok_def)
  from r show "\<forall>g ks l. monitor c = Marking g ks l \<or> monitor c = Spawning g ks l
                  \<longrightarrow> DevicePath (heap (shared c) ! r_vol g) \<noteq> []"
    by (auto simp: tasks_ok_def task_ok_def)
qed

theorem C2_supervisor_safety_witness:
  "MonitorMounts_tick [] [''pvc-2'', ''pvc-1''] two_volumes
     = (two_volumes\<lparr>ReqMountList := [''pvc-1'' \<mapsto> True]\<rparr>, [remount_1],
        [E_ListContains ''/mnt/pvc-1'', E_ReqMountPut ''pvc-1'',
         E_GoRemountVolume False 0 None ''/mnt/pvc-1''])
   \<and> DevicePath (heap two_volumes ! r_vol remount_1) = ''/dev/sdb''
   \<and> DevicePath (heap two_volumes ! 1) = []
   \<and> MonitorMounts_visit [] 1 two_volumes = (two_volumes, [], [])
   \<and> DevicePath (heap (shared repairing_1) ! r_vol remount_1) \<noteq> []"
proof -
  have e: "DevicePath (heap two_volumes ! 1) = []"
    by (simp add: two_volumes_def vol_2_def)
  note inst = C2_supervisor_safety [where list = "[]" and keys = "[''pvc-2'', ''pvc-1'']"
                 and s = two_volumes and vol = 1 and c = repairing_1]
  from inst e have v: "MonitorMounts_visit [] 1 two_volumes = (two_volumes, [], [])"
    by blast
  have k: "Volumes two_volumes ''pvc-2'' = Some (Suc 0)" "Volumes two_volumes ''pvc-1'' = Some 0"
    by (simp_all add: two_volumes_def)
  from v have v1: "MonitorMounts_visit [] (Suc 0) two_volumes = (two_volumes, [], [])"
    by simp
  have v0: "MonitorMounts_visit [] 0 two_volumes
     = (two_volumes\<lparr>ReqMountList := [''pvc-1'' \<mapsto> True]\<rparr>, [remount_1],
        [E_ListContains ''/mnt/pvc-1'', E_ReqMountPut ''pvc-1'',
         E_GoRemountVolume False 0 None ''/mnt/pvc-1''])"
    by (simp add: MonitorMounts_visit_def MonitorMounts_inspect_def MonitorMounts_inspect_read_def two_volumes_def vol_1_def
          ReqMountList_put_def remount_1_def)
  have t: "MonitorMounts_tick [] [''pvc-2'', ''pvc-1''] two_volumes
     = (two_volumes\<lparr>ReqMountList := [''pvc-1'' \<mapsto> True]\<rparr>, [remount_1],
        [E_ListContains ''/mnt/pvc-1'', E_ReqMountPut ''pvc-1'',
         E_GoRemountVolume False 0 None ''/mnt/pvc-1''])"
    unfolding MonitorMounts_tick_def
    by (simp add: k v1 v0)
  from inst t have "DevicePath (heap two_volumes ! r_vol remount_1) \<noteq> []"
    by simp
  moreover from inst reachable_repairing_1
  have "DevicePath (heap (shared repairing_1) ! r_vol remount_1) \<noteq> []"
    by (simp add: repairing_1_def)
  ultimately show ?thesis
    using t v e by (simp add: two_volumes_def remount_1_def)
qed

text \<open>
  Claim C3. In every reachable configuration and for every step of any thread: a record whose
  device path is not empty and that is still in the registry after the step is the same
  object with the same device path (so the device path never goes back to empty while the
  record exists, and goes from empty to non-empty at most once between the insert and the
  removal). The objects of the store are written by no step but \<open>A_Finalize\<close>, the second
  critical section of \<^verbatim>\<open>NodePublishVolume\<close>; that step writes one object, whose device
  path was empty. The return of a repair worker in particular writes no object.
\<close>

theorem C3_devicePath_monotone:
  assumes "reachable c" and "fire a c = Some c'"
  shows "(\<forall>volumeID vol vol'.
            Volumes (shared c) volumeID = Some vol \<and> DevicePath (heap (shared c) ! vol) \<noteq> []
            \<and> Volumes (shared c') volumeID = Some vol'
          \<longrightarrow> vol' = vol
              \<and> DevicePath (heap (shared c') ! vol') = DevicePath (heap (shared c) ! vol))
    \<and> ((\<forall>volumeID vol devicePath. a \<noteq> A_Finalize volumeID vol devicePath)
          \<longrightarrow> (\<forall>p < length (heap (shared c)). heap (shared c') ! p = heap (shared c) ! p))
    \<and> (\<forall>volumeID vol devicePath. a = A_Finalize volumeID vol devicePath
          \<longrightarrow> DevicePath (heap (shared c) ! vol) = []
              \<and> (\<forall>p < length (heap (shared c)).
                    p \<noteq> vol \<longrightarrow> heap (shared c') ! p = heap (shared c) ! p))"
proof (intro conjI allI impI)
  from assms(1) have P: "publishers_ok c" by (simp add: reachable_invariants)
  {
    fix volumeID vol vol'
    assume h: "Volumes (shared c) volumeID = Some vol \<and> DevicePath (heap (shared c) ! vol) \<noteq> []
            \<and> Volumes (shared c') volumeID = Some vol'"
    from fire_shared [OF assms(2)] h
    show "vol' = vol"
      by (auto simp: set_DevicePath_def Volumes_delete_def ReqMountList_put_def
            ReqMountList_delete_def split: if_splits)
    from P h have "vol < length (heap (shared c))"
      by (auto simp: publishers_ok_def wf_state_def)
    from fire_heap(3) [OF P assms(2) this] h \<open>vol' = vol\<close>
    show "DevicePath (heap (shared c') ! vol') = DevicePath (heap (shared c) ! vol)"
      by simp
  }
  {
    fix p
    assume "\<forall>volumeID vol devicePath. a \<noteq> A_Finalize volumeID vol devicePath"
      and "p < length (heap (shared c))"
    with fire_heap(4) [OF P assms(2), of p]
    show "heap (shared c') ! p = heap (shared c) ! p" by blast
  }
  {
    fix volumeID vol devicePath
    assume a: "a = A_Finalize volumeID vol devicePath"
    with assms(2) have in_p: "(volumeID, vol) \<in> set (publishing c)"
        and s: "shared c' = set_DevicePath vol devicePath (shared c)"
      by (auto split: if_splits)
    from P in_p show "DevicePath (heap (shared c) ! vol) = []"
      by (auto simp: publishers_ok_def)
    fix p assume "p < length (heap (shared c))" "p \<noteq> vol"
    then show "heap (shared c') ! p = heap (shared c) ! p"
      by (simp add: s set_DevicePath_def)
  }
qed

theorem C3_devicePath_monotone_witness:
  "reachable deleting_1
   \<and> fire (A_RemountReturn remount_1) deleting_1
       = Some \<lparr>shared = published_1, publishing = [], monitor = Ranging [] [], repairing = [],
               deleting = None, aborted = False\<rparr>
   \<and> Volumes (shared deleting_1) ''pvc-1'' = Some 0
   \<and> DevicePath (heap (shared deleting_1) ! 0) = ''/dev/sdb''
   \<and> DevicePath (heap published_1 ! 0) = ''/dev/sdb''"
proof -
  let ?c' = "\<lparr>shared = published_1, publishing = [], monitor = Ranging [] [], repairing = [],
              deleting = None, aborted = False\<rparr>"
  have f: "fire (A_RemountReturn remount_1) deleting_1 = Some ?c'"
    by (simp add: deleting_1_def ReqMountList_delete_def published_1_def remount_1_def
          vol_1_def)
  have h: "Volumes (shared deleting_1) ''pvc-1'' = Some 0"
      "DevicePath (heap (shared deleting_1) ! 0) = ''/dev/sdb''"
      "Volumes (shared ?c') ''pvc-1'' = Some 0"
    by (simp_all add: deleting_1_def published_1_def)
  from C3_devicePath_monotone [OF reachable_deleting_1 f] h
  have "DevicePath (heap (shared ?c') ! 0) = DevicePath (heap (shared deleting_1) ! 0)"
    by (metis list.distinct(1))
  with h f reachable_deleting_1 show ?thesis by simp
qed

section \<open>The repair set\<close>


text \<open>
  The loop body of the supervisor spawns only for a name that its read of \<^verbatim>\<open>ReqMountList\<close>
  found absent, after inserting it.
\<close>

lemma MonitorMounts_visit_spawned:
  assumes "MonitorMounts_visit list vol s = (s', spawned, evs)" and "spawned \<noteq> []"
  shows "ReqMountList s (Name (heap s ! vol)) = None"
    and "s' = ReqMountList_put (Name (heap s ! vol)) s"
    and "\<exists>exists mountPoint.
           spawned = [\<lparr>r_exists = exists, r_vol = vol, r_mountPoint = mountPoint,
                       r_desiredMountOpt = MountPath (heap s ! vol)\<rparr>]
           \<and> evs = [E_ListContains (MountPath (heap s ! vol)),
                     E_ReqMountPut (Name (heap s ! vol)),
                     E_GoRemountVolume exists vol mountPoint (MountPath (heap s ! vol))]"
proof -
  obtain r e0 where i: "MonitorMounts_inspect list vol s = (r, e0)"
    by (cases "MonitorMounts_inspect list vol s")
  with assms obtain exists mountPoint where r: "r = Remount exists mountPoint"
    by (cases r) (auto simp: MonitorMounts_visit_def)
  note f = MonitorMounts_inspect_Remount [OF i [unfolded r]]
  from f show "ReqMountList s (Name (heap s ! vol)) = None" by simp
  from assms i r show "s' = ReqMountList_put (Name (heap s ! vol)) s"
    by (simp add: MonitorMounts_visit_def)
  from assms i r f(4)
  show "\<exists>exists mountPoint.
           spawned = [\<lparr>r_exists = exists, r_vol = vol, r_mountPoint = mountPoint,
                       r_desiredMountOpt = MountPath (heap s ! vol)\<rparr>]
           \<and> evs = [E_ListContains (MountPath (heap s ! vol)),
                     E_ReqMountPut (Name (heap s ! vol)),
                     E_GoRemountVolume exists vol mountPoint (MountPath (heap s ! vol))]"
    by (auto simp: MonitorMounts_visit_def)
qed

text \<open>
  With the arguments the supervisor gives it, \<^verbatim>\<open>RemountVolume\<close>, when it ends, has not
  panicked but returned, and has removed the name from \<^verbatim>\<open>ReqMountList\<close> as its last step,
  whether the mount succeeded or failed.
\<close>

lemma RemountVolume_deletes:
  assumes "RemountVolume env exists vol mountPoint desiredMountOpt s = Some (outcome, s', evs)"
    and "exists = (mountPoint \<noteq> None)"
  shows "\<exists>devicePath err. outcome = Returned devicePath err"
    and "s' = ReqMountList_delete (Name (heap (others_during_repair env s) ! vol))
                (others_during_repair env s)"
    and "last evs = E_ReqMountDelete (Name (heap (others_during_repair env s) ! vol))"
  using assms
  by (auto simp: RemountVolume_def Let_def split: option.splits if_splits sum.splits)

lemma WaitForVolumeReadyAndReachable_first_pass:
  assumes "getVolStatus 0 0 (Name v) = Inr ''Healthy''" and "dial 0 0 (TargetPortal v) = None"
  shows "WaitForVolumeReadyAndReachable getVolStatus dial v
           = Some [E_getVolStatus (Name v), E_Dial (TargetPortal v)]"
  unfolding WaitForVolumeReadyAndReachable_def
  by (subst WaitForVolumeReadyAndReachable_from.simps)
     (simp add: Ready_at_once [of "getVolStatus 0" "Name v"]
        Reachable_at_once [of "dial 0" "TargetPortal v"] assms)

text \<open>The worker \<open>remount_1\<close> when its attach+mount fails.\<close>

lemma RemountVolume_attach_fails:
  "RemountVolume renv_attach_fails False 0 None ''/mnt/pvc-1'' (shared repairing_1)
     = Some (Returned [] (Some ''iscsiadm: login failed''), published_1,
             [E_getVolStatus ''pvc-1'', E_Dial ''10.0.0.7:3260'', E_AttachAndMountDisk 0,
              E_ReqMountDelete ''pvc-1''])"
proof -
  have w: "WaitForVolumeReadyAndReachable (w_getVolStatus renv_attach_fails)
             (w_Dial renv_attach_fails) (heap (shared repairing_1) ! 0)
           = Some [E_getVolStatus ''pvc-1'', E_Dial ''10.0.0.7:3260'']"
    by (subst WaitForVolumeReadyAndReachable_first_pass)
       (simp_all add: renv_attach_fails_def every_pass_def scripted_def repairing_1_def
          published_1_def vol_1_def)
  have d: "ReqMountList_delete ''pvc-1'' (shared repairing_1) = published_1"
    by (simp add: ReqMountList_delete_def repairing_1_def published_1_def)
  show ?thesis
    unfolding RemountVolume_def w
    by (simp add: renv_attach_fails_def Let_def d)
       (simp add: repairing_1_def published_1_def vol_1_def ReqMountList_delete_def)
qed

text \<open>
  As long as no read of \<^verbatim>\<open>ReqMountList\<close> is concurrent with a \<^verbatim>\<open>delete\<close>, at most one
  repair goroutine is in flight for a volume name, and the names of the goroutines in
  flight are in \<^verbatim>\<open>ReqMountList\<close>.
\<close>

lemma race_free_at_most_one_repair:
  assumes "race_free c"
  shows "length (repairs_of c name) \<le> 1"
    and "\<forall>g \<in> set (repairing c).
           ReqMountList (shared c) (Name (heap (shared c) ! r_vol g)) \<noteq> None"
proof -
  from assms have R: "repairs_ok c" by (simp add: race_free_invariants)
  then have "distinct (map (task_name c) (repairing c))" by (simp add: repairs_ok_def)
  from distinct_map_filter_le1 [OF this, of name]
  show "length (repairs_of c name) \<le> 1"
    by (simp add: repairs_of_def task_name_def)
  from R show "\<forall>g \<in> set (repairing c).
                 ReqMountList (shared c) (Name (heap (shared c) ! r_vol g)) \<noteq> None"
    by (simp add: repairs_ok_def task_name_def)
qed








end
